theory Spec2Isabelle
  imports Main "HOL-Library.Sublist" "HOL-Library.AList"
begin

section \<open>Python strings and bytes\<close>

text \<open>
  A Python \<open>str\<close> is a sequence of code points, and it may hold any of them: also a
  lone surrogate (\<open>U+D800\<close> to \<open>U+DFFF\<close>), which \<open>json.loads\<close> produces from the
  escape of such a code point and which the UTF-8 codec refuses to encode. A character is
  \<open>Chr c\<close> for a code point below 256, or \<open>Wide n\<close> for the code point \<open>256 + n\<close>
  (Python has them up to \<open>U+10FFFF\<close>); a \<open>ustring\<close> is a list of them, and \<open>str\<close>
  embeds a literal of the program. A \<open>bytes\<close> object is a list of 8-bit values.
\<close>

datatype uchar = Chr char | Wide nat

type_synonym ustring = "uchar list"

type_synonym bytes = "char list"

abbreviation (input) str :: "string \<Rightarrow> ustring" where
  "str s \<equiv> map Chr s"

fun code_point :: "uchar \<Rightarrow> nat" where
  "code_point (Chr c) = of_char c"
| "code_point (Wide n) = 256 + n"

text \<open>The code points that the UTF-8 codec cannot encode: writing a text with one of
  them to a file opened with \<open>encoding="utf-8"\<close> raises \<open>UnicodeEncodeError\<close>.\<close>

definition is_surrogate :: "uchar \<Rightarrow> bool" where
  "is_surrogate c = (0xD800 \<le> code_point c \<and> code_point c \<le> 0xDFFF)"

definition encodable :: "ustring \<Rightarrow> bool" where
  "encodable s = (\<not> list_ex is_surrogate s)"

text \<open>A lone surrogate, \<open>U+D83D\<close>, as \<open>json.loads\<close> returns it for its escape.\<close>

definition lone_surrogate :: uchar where
  "lone_surrogate = Wide (0xD83D - 0x100)"

section \<open>Exceptions\<close>

text \<open>
  An exception is a value: a function of the program that can raise returns
  \<open>error + 'a\<close>, with \<open>Inl\<close> for the exception. \<open>HTTPException\<close> carries the status code
  and the detail. \<open>RequestValidationError\<close> is what FastAPI raises, and answers with
  status 422, when a request lacks a required parameter of the route. \<open>CsvError\<close> is
  \<open>csv.Error\<close>. \<open>ExternalError\<close> stands for whatever an outside service or library
  raises, with its message. \<open>NonRectangular\<close> is not an exception of the program: it
  marks the one case that the model leaves out, a data file with a row that has fewer or
  more fields than the header (\<open>DictReader\<close> fills or collects such a row with values
  that are no strings, while the program declares its records as \<open>Dict[str, str]\<close>); no
  file that the program writes has such a row.
\<close>

datatype error =
    HTTPException nat ustring
  | RequestValidationError
  | ValueError
  | KeyError
  | AttributeError
  | CsvError
  | UnicodeEncodeError
  | NonRectangular
  | ExternalError ustring

section \<open>String methods\<close>

text \<open>The ustring methods that \<open>backend/main.py\<close> calls are written out below with
  the meaning the Python library gives them.\<close>

text \<open>\<open>str.isspace\<close> on one character: the code points that Python counts as
  whitespace.\<close>

definition is_space :: "uchar \<Rightarrow> bool" where
  "is_space c =
     (code_point c \<in> {9, 10, 11, 12, 13, 28, 29, 30, 31, 32, 133, 160, 0x1680,
                       0x2000, 0x2001, 0x2002, 0x2003, 0x2004, 0x2005, 0x2006, 0x2007,
                       0x2008, 0x2009, 0x200A, 0x2028, 0x2029, 0x202F, 0x205F, 0x3000})"

text \<open>\<open>s.lstrip()\<close>, \<open>s.rstrip()\<close> and \<open>s.strip()\<close> with no argument.\<close>

definition lstrip :: "ustring \<Rightarrow> ustring" where
  "lstrip s = dropWhile is_space s"

definition rstrip :: "ustring \<Rightarrow> ustring" where
  "rstrip s = rev (dropWhile is_space (rev s))"

definition strip :: "ustring \<Rightarrow> ustring" where
  "strip s = rstrip (lstrip s)"

text \<open>\<open>s.find(sep)\<close>: the index of the leftmost occurrence of \<open>sep\<close> in \<open>s\<close>,
  \<open>None\<close> where Python returns \<open>-1\<close> (and where \<open>s.index(sep)\<close> raises
  \<open>ValueError\<close>).\<close>

fun find_sub :: "'a list \<Rightarrow> 'a list \<Rightarrow> nat option" where
  "find_sub sep [] = (if sep = [] then Some 0 else None)"
| "find_sub sep (c # cs) =
     (if prefix sep (c # cs) then Some 0 else map_option Suc (find_sub sep cs))"

text \<open>\<open>s.rfind(sep)\<close>: the index of the rightmost occurrence (\<open>s.rindex(sep)\<close>
  raises \<open>ValueError\<close> where this is \<open>None\<close>).\<close>

definition rfind_sub :: "'a list \<Rightarrow> 'a list \<Rightarrow> nat option" where
  "rfind_sub sep s =
     map_option (\<lambda>i. length s - length sep - i) (find_sub (rev sep) (rev s))"

text \<open>\<open>sep in s\<close>.\<close>

definition contains :: "'a list \<Rightarrow> 'a list \<Rightarrow> bool" where
  "contains sep s = (find_sub sep s \<noteq> None)"

text \<open>\<open>s[i:j]\<close> for \<open>0 \<le> i\<close> and \<open>0 \<le> j\<close>: empty when \<open>j \<le> i\<close>.\<close>

definition slice :: "nat \<Rightarrow> nat \<Rightarrow> 'a list \<Rightarrow> 'a list" where
  "slice i j s = drop i (take j s)"

text \<open>\<open>s.split(sep)\<close> for a non-empty separator: cut at the leftmost occurrence and
  go on in the rest. (Python raises \<open>ValueError\<close> on an empty separator; the program
  never passes one, and the model then returns the text uncut.)\<close>

lemma find_sub_bound:
  "find_sub sep s = Some i \<Longrightarrow> i + length sep \<le> length s"
proof (induction s arbitrary: i)
  case Nil
  then show ?case by (simp split: if_splits)
next
  case (Cons c cs)
  show ?case
  proof (cases "prefix sep (c # cs)")
    case True
    with Cons.prems show ?thesis by (auto dest: prefix_length_le)
  next
    case False
    with Cons.prems obtain j where "find_sub sep cs = Some j" "i = Suc j"
      by auto
    with Cons.IH show ?thesis by fastforce
  qed
qed

function split_str :: "'a list \<Rightarrow> 'a list \<Rightarrow> 'a list list" where
  "split_str sep s =
     (if sep = [] then [s]
      else case find_sub sep s of
             None \<Rightarrow> [s]
           | Some i \<Rightarrow> take i s # split_str sep (drop (i + length sep) s))"
  by pat_completeness auto
termination
proof (relation "measure (\<lambda>(sep, s). length s)")
  show "wf (measure (\<lambda>(sep, s). length s))" by simp
next
  fix sep s :: "'a list" and i
  assume "sep \<noteq> []" and "find_sub sep s = Some i"
  then have "i + length sep \<le> length s" and "0 < length sep"
    by (auto dest: find_sub_bound)
  then have "length s - (i + length sep) < length s"
    by arith
  then show "((sep, drop (i + length sep) s), (sep, s)) \<in> measure (\<lambda>(sep, s). length s)"
    by simp
qed

declare split_str.simps [simp del]

section \<open>The extraction parser\<close>

text \<open>The code fence: three backticks.\<close>

definition fence :: ustring where
  "fence = [Chr (CHR 0x60), Chr (CHR 0x60), Chr (CHR 0x60)]"

text \<open>
  \<open>parse_json_blob\<close>, up to the call of \<open>json.loads\<close>: the value of \<open>cleaned\<close>
  that is handed to the decoder.
  \<^verbatim>\<open>
    cleaned = text.strip()
    if FENCE in cleaned:
        cleaned = cleaned.split(FENCE)
        if len(cleaned) >= 3: cleaned = cleaned[1]
        else: cleaned = "".join(cleaned)
    if cleaned.startswith("json"): cleaned = cleaned[4:]
    try:
        start = cleaned.index("{"); end = cleaned.rindex("}") + 1
        cleaned = cleaned[start:end]
    except ValueError: pass
  \<close>
\<close>

definition defence :: "ustring \<Rightarrow> ustring" where
  "defence text =
     (let cleaned = strip text;
          cleaned = (if contains fence cleaned
                     then (let parts = split_str fence cleaned
                           in if length parts \<ge> 3 then parts ! 1 else concat parts)
                     else cleaned)
      in if prefix (str ''json'') cleaned then drop 4 cleaned else cleaned)"

definition brace_slice :: "ustring \<Rightarrow> ustring" where
  "brace_slice cleaned =
     (case find_sub (str ''{'') cleaned of
        None \<Rightarrow> cleaned
      | Some start \<Rightarrow>
          (case rfind_sub (str ''}'') cleaned of
             None \<Rightarrow> cleaned
           | Some e \<Rightarrow> slice start (e + 1) cleaned))"

definition json_blob_text :: "ustring \<Rightarrow> ustring" where
  "json_blob_text text = brace_slice (defence text)"

text \<open>\<open>json.loads\<close> is the standard library's decoder: a parameter of the model,
  returning the decoded value or the exception it raises.\<close>

definition parse_json_blob :: "(ustring \<Rightarrow> 'e + 'j) \<Rightarrow> ustring \<Rightarrow> 'e + 'j" where
  "parse_json_blob json_loads text = json_loads (json_blob_text text)"

text \<open>A text is clean for a character \<open>x\<close> when the run \<open>xxx\<close> does not occur in
  it and it does not end in \<open>x\<close>: then a run appended to it starts where it ends.\<close>

definition run_clean :: "'a \<Rightarrow> 'a list \<Rightarrow> bool" where
  "run_clean x a = (\<not> contains [x, x, x] a \<and> (a = [] \<or> last a \<noteq> x))"

section \<open>The capture time\<close>

text \<open>
  A \<open>datetime\<close> and its \<open>isoformat()\<close> once the UTC zone has been attached with
  \<open>replace(tzinfo=timezone.utc)\<close>: the date, \<open>T\<close>, the time, the microseconds when
  they are not zero, and the offset \<open>+00:00\<close>. \<open>zero_pad w n\<close> writes the last \<open>w\<close>
  decimal digits of \<open>n\<close>; the components of a \<open>datetime\<close> never have more (the year is at
  most 9999).
\<close>

record datetime =
  year :: nat
  month :: nat
  day :: nat
  hour :: nat
  minute :: nat
  second :: nat
  microsecond :: nat

fun zero_pad :: "nat \<Rightarrow> nat \<Rightarrow> ustring" where
  "zero_pad 0 n = []"
| "zero_pad (Suc w) n = zero_pad w (n div 10) @ [Chr (char_of (48 + n mod 10))]"

definition isoformat_utc :: "datetime \<Rightarrow> ustring" where
  "isoformat_utc d =
     zero_pad 4 (year d) @ str ''-'' @ zero_pad 2 (month d) @ str ''-'' @ zero_pad 2 (day d)
     @ str ''T''
     @ zero_pad 2 (hour d) @ str '':'' @ zero_pad 2 (minute d) @ str '':'' @ zero_pad 2 (second d)
     @ (if microsecond d = 0 then [] else str ''.'' @ zero_pad 6 (microsecond d))
     @ str ''+00:00''"

text \<open>
  What an ISO-format timestamp in UTC is, said without the formatter: a text of the
  shape \<open>YYYY-MM-DDTHH:MM:SS+00:00\<close> or \<open>YYYY-MM-DDTHH:MM:SS.ffffff+00:00\<close>, where
  every letter stands for a decimal digit. A shape is a list of places, each a digit or
  a fixed character.
\<close>

datatype place = Digit | Lit char

definition is_digit :: "uchar \<Rightarrow> bool" where
  "is_digit c = (48 \<le> code_point c \<and> code_point c \<le> 57)"

fun matches :: "place list \<Rightarrow> ustring \<Rightarrow> bool" where
  "matches [] s = (s = [])"
| "matches (p # ps) [] = False"
| "matches (Digit # ps) (c # cs) = (is_digit c \<and> matches ps cs)"
| "matches (Lit x # ps) (c # cs) = (c = Chr x \<and> matches ps cs)"

definition iso_seconds :: "place list" where
  "iso_seconds =
     [Digit, Digit, Digit, Digit, Lit (CHR ''-''), Digit, Digit, Lit (CHR ''-''), Digit, Digit,
      Lit (CHR ''T''), Digit, Digit, Lit (CHR '':''), Digit, Digit, Lit (CHR '':''), Digit, Digit]"

definition iso_fraction :: "place list" where
  "iso_fraction = [Lit (CHR ''.''), Digit, Digit, Digit, Digit, Digit, Digit]"

definition utc_offset :: "place list" where
  "utc_offset = map Lit ''+00:00''"

definition is_iso_utc :: "ustring \<Rightarrow> bool" where
  "is_iso_utc s =
     (matches (iso_seconds @ utc_offset) s \<or> matches (iso_seconds @ iso_fraction @ utc_offset) s)"

text \<open>
  The EXIF data of an image as Pillow's \<open>Image.Exif\<close> holds it. The mapping itself (its
  length, its truth value, its \<open>items()\<close>) is the first image file directory, IFD0. The
  Exif directory is another one, which IFD0 points to with the tag \<open>0x8769\<close> and which
  only \<open>get_ifd(0x8769)\<close> returns; the program never calls it. The value of an entry is
  a text or something else (a number, bytes, a tuple); \<open>strptime\<close> raises \<open>TypeError\<close>
  on the latter. \<open>tags\<close> is the table \<open>ExifTags.TAGS\<close>, from tag numbers to names, and a
  number it lacks is no name. The EXIF standard puts \<open>DateTime\<close> (tag 306) into IFD0 and
  \<open>DateTimeOriginal\<close> (36867) and \<open>DateTimeDigitized\<close> (36868) into the Exif directory.
\<close>

datatype exif_value = ExifText ustring | ExifOther

record exif =
  ifd0 :: "(nat \<times> exif_value) list"
  exif_ifd :: "(nat \<times> exif_value) list"

definition datetime_tags :: "ustring list" where
  "datetime_tags = [str ''DateTimeOriginal'', str ''DateTimeDigitized'', str ''DateTime'']"

definition is_datetime_tag :: "(nat \<Rightarrow> ustring option) \<Rightarrow> nat \<Rightarrow> bool" where
  "is_datetime_tag tags tag_id =
     (case tags tag_id of None \<Rightarrow> False | Some name \<Rightarrow> name \<in> set datetime_tags)"

definition parse_exif_time :: "(ustring \<Rightarrow> datetime option) \<Rightarrow> exif_value \<Rightarrow> datetime option" where
  "parse_exif_time strptime v = (case v of ExifText s \<Rightarrow> strptime s | ExifOther \<Rightarrow> None)"

text \<open>
  The loop over the entries, the \<open>try\<close> block around it, and the function:
  \<^verbatim>\<open>
    try:
        with Image.open(io.BytesIO(image_bytes)) as img:
            exif_data = img.getexif()
            if exif_data:
                for tag_id, value in exif_data.items():
                    tag = ExifTags.TAGS.get(tag_id, tag_id)
                    if tag in {"DateTimeOriginal", "DateTimeDigitized", "DateTime"}:
                        try:
                            parsed = datetime.strptime(value, "%Y:%m:%d %H:%M:%S")
                            return parsed.replace(tzinfo=timezone.utc).isoformat()
                        except Exception:
                            continue
    except Exception:
        pass
    return datetime.now(timezone.utc).isoformat()
  \<close>
  \<open>strptime s\<close> is \<open>None\<close> when \<open>datetime.strptime\<close> raises on the text \<open>s\<close>;
  \<open>getexif\<close> returns the EXIF data, or the exception that opening the image or reading
  its EXIF data raises; \<open>now\<close> is the clock.
\<close>

fun scan_exif ::
  "(nat \<Rightarrow> ustring option) \<Rightarrow> (ustring \<Rightarrow> datetime option) \<Rightarrow> (nat \<times> exif_value) list
     \<Rightarrow> ustring option" where
  "scan_exif tags strptime [] = None"
| "scan_exif tags strptime ((tag_id, v) # rest) =
     (if is_datetime_tag tags tag_id
      then (case parse_exif_time strptime v of
              Some parsed \<Rightarrow> Some (isoformat_utc parsed)
            | None \<Rightarrow> scan_exif tags strptime rest)
      else scan_exif tags strptime rest)"

definition read_exif_time ::
  "(nat \<Rightarrow> ustring option) \<Rightarrow> (ustring \<Rightarrow> datetime option)
     \<Rightarrow> (bytes \<Rightarrow> error + exif) \<Rightarrow> bytes \<Rightarrow> error + ustring option" where
  "read_exif_time tags strptime getexif image_bytes =
     (case getexif image_bytes of
        Inl e \<Rightarrow> Inl e
      | Inr exif_data \<Rightarrow>
          Inr (if ifd0 exif_data \<noteq> [] then scan_exif tags strptime (ifd0 exif_data) else None))"

definition extract_capture_datetime ::
  "(nat \<Rightarrow> ustring option) \<Rightarrow> (ustring \<Rightarrow> datetime option)
     \<Rightarrow> (bytes \<Rightarrow> error + exif) \<Rightarrow> datetime \<Rightarrow> bytes \<Rightarrow> error + ustring" where
  "extract_capture_datetime tags strptime getexif now image_bytes =
     (case read_exif_time tags strptime getexif image_bytes of
        Inr (Some stamp) \<Rightarrow> Inr stamp
      | Inr None \<Rightarrow> Inr (isoformat_utc now)
      | Inl e \<Rightarrow> Inr (isoformat_utc now))"

text \<open>An entry decides the capture time when its tag is one of the three and its value
  is parsed.\<close>

definition usable_tag ::
  "(nat \<Rightarrow> ustring option) \<Rightarrow> (ustring \<Rightarrow> datetime option) \<Rightarrow> nat \<times> exif_value \<Rightarrow> bool" where
  "usable_tag tags strptime item =
     (is_datetime_tag tags (fst item) \<and> parse_exif_time strptime (snd item) \<noteq> None)"

section \<open>The CSV file\<close>

text \<open>
  The data file is written by \<open>csv.DictWriter\<close> and read by \<open>csv.DictReader\<close>, both
  with the default dialect (\<open>excel\<close>): delimiter comma, quote character \<open>"\<close>, doubled
  quotes, minimal quoting, line terminator CR LF, no escape character, not strict. The
  file is opened in text mode with \<open>newline=""\<close>, so no newline is translated in
  either direction. The two classes are the standard library's; the model follows the
  writer and the reader of CPython's \<open>_csv\<close> module (Python 3.11 and later, where a
  NUL character is an ordinary character).
\<close>

definition COMMA :: uchar where "COMMA = Chr (CHR '','')"
definition DQUOTE :: uchar where "DQUOTE = Chr (CHR 0x22)"
definition CR :: uchar where "CR = Chr (CHR 0x0D)"
definition LF :: uchar where "LF = Chr (CHR 0x0A)"

text \<open>\<open>csv.field_size_limit()\<close>: the module's default, which the program never
  changes.\<close>

definition field_size_limit :: nat where
  "field_size_limit = 131072"

text \<open>
  The writer. With minimal quoting a field is quoted when it contains the delimiter,
  the quote character or a character of the line terminator; a quote character inside
  is doubled. A row is its fields joined by commas and the line terminator; a row of one
  empty field is written as \<open>""\<close>.
\<close>

definition needs_quotes :: "ustring \<Rightarrow> bool" where
  "needs_quotes f = list_ex (\<lambda>c. c = COMMA \<or> c = DQUOTE \<or> c = CR \<or> c = LF) f"

definition double_quotes :: "ustring \<Rightarrow> ustring" where
  "double_quotes f = concat (map (\<lambda>c. if c = DQUOTE then [DQUOTE, DQUOTE] else [c]) f)"

definition quoted :: "ustring \<Rightarrow> ustring" where
  "quoted f = DQUOTE # double_quotes f @ [DQUOTE]"

definition csv_field :: "ustring \<Rightarrow> ustring" where
  "csv_field f = (if needs_quotes f then quoted f else f)"

fun join_str :: "'a list \<Rightarrow> 'a list list \<Rightarrow> 'a list" where
  "join_str sep [] = []"
| "join_str sep [x] = x"
| "join_str sep (x # y # ys) = x @ sep @ join_str sep (y # ys)"

definition csv_row :: "ustring list \<Rightarrow> ustring" where
  "csv_row fs = (if fs = [[]] then quoted [] else join_str [COMMA] (map csv_field fs)) @ [CR, LF]"

text \<open>
  The reader is a state machine over the characters of a line, followed by an
  end-of-line mark; \<open>None\<close> is that mark. Its state is the parser state, the field
  being read and the fields of the record saved so far. The states for an escape
  character are left out: the dialect has none. \<open>parse_add_char\<close> refuses a character
  once the field has reached the size limit.
\<close>

datatype parse_state =
  START_RECORD | START_FIELD | IN_FIELD | IN_QUOTED_FIELD | QUOTE_IN_QUOTED_FIELD | EAT_CRNL

type_synonym reader = "parse_state \<times> ustring \<times> ustring list"

definition parse_reset :: reader where
  "parse_reset = (START_RECORD, [], [])"

definition parse_add_char :: "parse_state \<Rightarrow> ustring \<Rightarrow> ustring list \<Rightarrow> uchar \<Rightarrow> error + reader" where
  "parse_add_char s field saved c =
     (if length field \<ge> field_size_limit then Inl CsvError else Inr (s, field @ [c], saved))"

definition parse_save_field :: "parse_state \<Rightarrow> ustring \<Rightarrow> ustring list \<Rightarrow> reader" where
  "parse_save_field s field saved = (s, [], saved @ [field])"

text \<open>The end of a line outside quotes saves the field and ends the record: at the
  mark the reader is ready for the next record, at a newline character it first eats
  the rest of the line terminator.\<close>

definition end_field :: "ustring \<Rightarrow> ustring list \<Rightarrow> uchar option \<Rightarrow> error + reader" where
  "end_field field saved ev =
     Inr (parse_save_field (if ev = None then START_RECORD else EAT_CRNL) field saved)"

definition is_newline :: "uchar option \<Rightarrow> bool" where
  "is_newline ev = (ev = Some LF \<or> ev = Some CR \<or> ev = None)"

text \<open>\<open>START_FIELD\<close>, which \<open>START_RECORD\<close> falls through to on an ordinary
  character.\<close>

definition start_field :: "ustring \<Rightarrow> ustring list \<Rightarrow> uchar option \<Rightarrow> error + reader" where
  "start_field field saved ev =
     (if is_newline ev then end_field field saved ev
      else if ev = Some DQUOTE then Inr (IN_QUOTED_FIELD, field, saved)
      else if ev = Some COMMA then Inr (parse_save_field START_FIELD field saved)
      else parse_add_char IN_FIELD field saved (the ev))"

fun parse_process_char :: "reader \<Rightarrow> uchar option \<Rightarrow> error + reader" where
  "parse_process_char (START_RECORD, field, saved) ev =
     (if ev = None then Inr (START_RECORD, field, saved)
      else if ev = Some LF \<or> ev = Some CR then Inr (EAT_CRNL, field, saved)
      else start_field field saved ev)"
| "parse_process_char (START_FIELD, field, saved) ev = start_field field saved ev"
| "parse_process_char (IN_FIELD, field, saved) ev =
     (if is_newline ev then end_field field saved ev
      else if ev = Some COMMA then Inr (parse_save_field START_FIELD field saved)
      else parse_add_char IN_FIELD field saved (the ev))"
| "parse_process_char (IN_QUOTED_FIELD, field, saved) ev =
     (if ev = None then Inr (IN_QUOTED_FIELD, field, saved)
      else if ev = Some DQUOTE then Inr (QUOTE_IN_QUOTED_FIELD, field, saved)
      else parse_add_char IN_QUOTED_FIELD field saved (the ev))"
| "parse_process_char (QUOTE_IN_QUOTED_FIELD, field, saved) ev =
     (if ev = Some DQUOTE then parse_add_char IN_QUOTED_FIELD field saved DQUOTE
      else if ev = Some COMMA then Inr (parse_save_field START_FIELD field saved)
      else if is_newline ev then end_field field saved ev
      else parse_add_char IN_FIELD field saved (the ev))"
| "parse_process_char (EAT_CRNL, field, saved) ev =
     (if ev = Some LF \<or> ev = Some CR then Inr (EAT_CRNL, field, saved)
      else if ev = None then Inr (START_RECORD, field, saved)
      else Inl CsvError)"

text \<open>
  The reader takes its lines from the file. In text mode with \<open>newline=""\<close> a line
  ends after a line feed, after a carriage return that no line feed follows, and at the
  end of the text. \<open>read_text\<close> feeds the characters one by one and gives the
  end-of-line mark wherever a line ends; when the state after the mark is
  \<open>START_RECORD\<close>, the record is complete and the parser is reset. At the end of the
  text, a field that is not empty or an open quote still gives a last record.
  \<open>csv_reader content\<close> is \<open>list(csv.reader(f))\<close> for a file with that content, or the
  error that the reader raises.
\<close>

definition line_ends :: "uchar \<Rightarrow> ustring \<Rightarrow> bool" where
  "line_ends c cs = (c = LF \<or> (c = CR \<and> (case cs of [] \<Rightarrow> True | d # _ \<Rightarrow> d \<noteq> LF)) \<or> cs = [])"

fun read_text :: "reader \<Rightarrow> ustring list list \<Rightarrow> ustring \<Rightarrow> error + ustring list list" where
  "read_text (s, field, saved) acc [] =
     Inr (if field \<noteq> [] \<or> s = IN_QUOTED_FIELD then acc @ [saved @ [field]] else acc)"
| "read_text r acc (c # cs) =
     (case parse_process_char r (Some c) of
        Inl e \<Rightarrow> Inl e
      | Inr r1 \<Rightarrow>
          if line_ends c cs
          then (case parse_process_char r1 None of
                  Inl e \<Rightarrow> Inl e
                | Inr (s2, field2, saved2) \<Rightarrow>
                    if s2 = START_RECORD then read_text parse_reset (acc @ [saved2]) cs
                    else read_text (s2, field2, saved2) acc cs)
          else read_text r1 acc cs)"

definition csv_reader :: "ustring \<Rightarrow> error + ustring list list" where
  "csv_reader content = read_text parse_reset [] content"

text \<open>A field that the writer leaves unquoted.\<close>

definition plain :: "ustring \<Rightarrow> bool" where
  "plain p = (\<not> needs_quotes p)"

section \<open>The record store\<close>

text \<open>
  A record is a \<open>Dict[str, str]\<close>: an association list in insertion order, read with
  \<open>map_of\<close>. \<open>dict_get d k dflt\<close> is \<open>d.get(k, dflt)\<close> and \<open>dict_update d changes\<close> is
  \<open>d.update(changes)\<close>: a key that is present keeps its place and takes the new value, a
  new key is added at the end.
\<close>

type_synonym row = "(ustring \<times> ustring) list"

definition dict_get :: "row \<Rightarrow> ustring \<Rightarrow> ustring \<Rightarrow> ustring" where
  "dict_get d k dflt = (case map_of d k of None \<Rightarrow> dflt | Some v \<Rightarrow> v)"

definition dict_update :: "row \<Rightarrow> row \<Rightarrow> row" where
  "dict_update d changes = fold (\<lambda>(k, v). AList.update k v) changes d"

definition COLUMNS :: "ustring list" where
  "COLUMNS =
     [str ''id'', str ''first_name'', str ''last_name'', str ''company'', str ''company_logo_description'',
      str ''email'', str ''phone'', str ''address'', str ''meeting_context'', str ''priorities'',
      str ''personal_notes'', str ''captured_at'', str ''source_image'', str ''summary_image'',
      str ''raw_ocr_json'']"

text \<open>
  \<open>DictWriter.writerow\<close> with the default \<open>extrasaction="raise"\<close> and
  \<open>restval=""\<close>: a key outside the field names raises \<open>ValueError\<close> before anything of
  the row is written, and a field name that the row lacks is written as the empty string.
\<close>

definition dict_to_list :: "ustring list \<Rightarrow> row \<Rightarrow> error + ustring list" where
  "dict_to_list fieldnames rowdict =
     (if list_all (\<lambda>k. k \<in> set fieldnames) (map fst rowdict)
      then Inr (map (\<lambda>k. dict_get rowdict k []) fieldnames)
      else Inl ValueError)"

text \<open>
  \<open>list(csv.DictReader(f))\<close>: the first record of the file gives the field names, an
  empty record (a blank line) after it is skipped, and every other record becomes
  \<open>dict(zip(fieldnames, row))\<close>.
\<close>

fun to_dicts :: "ustring list \<Rightarrow> ustring list list \<Rightarrow> error + row list" where
  "to_dicts fieldnames [] = Inr []"
| "to_dicts fieldnames (r # rs) =
     (if r = [] then to_dicts fieldnames rs
      else if length r \<noteq> length fieldnames then Inl NonRectangular
      else (case to_dicts fieldnames rs of
              Inl e \<Rightarrow> Inl e
            | Inr ds \<Rightarrow> Inr (dict_update [] (zip fieldnames r) # ds)))"

definition dict_reader :: "ustring \<Rightarrow> error + row list" where
  "dict_reader content =
     (case csv_reader content of
        Inl e \<Rightarrow> Inl e
      | Inr [] \<Rightarrow> Inr []
      | Inr (fieldnames # rows) \<Rightarrow> to_dicts fieldnames rows)"

text \<open>
  What the program can change: the data file \<open>cards.csv\<close>, as the text that its
  bytes decode to (\<open>None\<close> when it does not exist; a file that is not UTF-8 is left out),
  the files of the image directory by name, and the requests sent to the chat service
  and to the image service, in order (a prompt and a size for the latter).
\<close>

record chat_request =
  model :: ustring
  system_content :: ustring
  user_text :: ustring
  image_url :: ustring
  temperature :: nat
  response_format :: ustring

record store =
  data_file :: "ustring option"
  images :: "(ustring \<times> bytes) list"
  chat_calls :: "chat_request list"
  image_calls :: "(ustring \<times> ustring) list"

text \<open>
  \<^verbatim>\<open>
    def ensure_data_file():
        if not DATA_FILE.exists():
            with DATA_FILE.open("w", newline="", encoding="utf-8") as f:
                writer = csv.DictWriter(f, fieldnames=COLUMNS)
                writer.writeheader()

    def load_records():
        ensure_data_file()
        with DATA_FILE.open("r", newline="", encoding="utf-8") as f:
            reader = csv.DictReader(f)
            return list(reader)

    def write_records(records):
        ensure_data_file()
        with DATA_FILE.open("w", newline="", encoding="utf-8") as f:
            writer = csv.DictWriter(f, fieldnames=COLUMNS)
            writer.writeheader()
            for row in records:
                writer.writerow(row)
  \<close>
  Opening the file for writing empties it; when a row raises, the rows written before it
  stay in the file. A row can raise in two ways: \<open>DictWriter\<close> raises \<open>ValueError\<close> on
  a key outside the field names, and the file, which encodes every line as UTF-8 when
  the writer hands it over, raises \<open>UnicodeEncodeError\<close> on a line with a lone surrogate.
  The header has none.
\<close>

definition ensure_data_file :: "store \<Rightarrow> store" where
  "ensure_data_file st =
     (case data_file st of
        None \<Rightarrow> st\<lparr>data_file := Some (csv_row COLUMNS)\<rparr>
      | Some content \<Rightarrow> st)"

definition load_records :: "store \<Rightarrow> (error + row list) \<times> store" where
  "load_records st =
     (let st1 = ensure_data_file st
      in (dict_reader (the (data_file st1)), st1))"

fun write_rows :: "ustring \<Rightarrow> row list \<Rightarrow> (error + unit) \<times> ustring" where
  "write_rows content [] = (Inr (), content)"
| "write_rows content (r # rs) =
     (case dict_to_list COLUMNS r of
        Inl e \<Rightarrow> (Inl e, content)
      | Inr values \<Rightarrow>
          if encodable (csv_row values) then write_rows (content @ csv_row values) rs
          else (Inl UnicodeEncodeError, content))"

definition write_records :: "row list \<Rightarrow> store \<Rightarrow> (error + unit) \<times> store" where
  "write_records records st =
     (let st1 = ensure_data_file st;
          (res, content) = write_rows (csv_row COLUMNS) records
      in (res, st1\<lparr>data_file := Some content\<rparr>))"

text \<open>
  \<^verbatim>\<open>
    def update_record(card_id, changes):
        records = load_records()
        for row in records:
            if row["id"] == card_id:
                row.update(changes)
                write_records(records)
                return row
        raise HTTPException(status_code=404, detail="Card not found")
  \<close>
  \<open>update_rows\<close> is the loop: \<open>seen\<close> are the rows before the current one, and the
  result is the list with the first matching row updated, and that row. A row without
  the key \<open>id\<close> raises \<open>KeyError\<close>.
\<close>

fun update_rows :: "ustring \<Rightarrow> row \<Rightarrow> row list \<Rightarrow> row list \<Rightarrow> error + (row list \<times> row) option" where
  "update_rows card_id changes seen [] = Inr None"
| "update_rows card_id changes seen (r # rest) =
     (case map_of r (str ''id'') of
        None \<Rightarrow> Inl KeyError
      | Some v \<Rightarrow>
          if v = card_id
          then (let r' = dict_update r changes in Inr (Some (seen @ r' # rest, r')))
          else update_rows card_id changes (seen @ [r]) rest)"

definition update_record :: "ustring \<Rightarrow> row \<Rightarrow> store \<Rightarrow> (error + row) \<times> store" where
  "update_record card_id changes st =
     (case load_records st of
        (Inl e, st1) \<Rightarrow> (Inl e, st1)
      | (Inr records, st1) \<Rightarrow>
          (case update_rows card_id changes [] records of
             Inl e \<Rightarrow> (Inl e, st1)
           | Inr None \<Rightarrow> (Inl (HTTPException 404 (str ''Card not found'')), st1)
           | Inr (Some (records', r')) \<Rightarrow>
               (case write_records records' st1 of
                  (Inl e, st2) \<Rightarrow> (Inl e, st2)
                | (Inr u, st2) \<Rightarrow> (Inr r', st2))))"

text \<open>The submitted context, and the prompt for the image service.\<close>

record card_context =
  meeting_context :: ustring
  priorities :: ustring
  personal_notes :: ustring

definition summarize_for_image :: "row \<Rightarrow> card_context \<Rightarrow> ustring" where
  "summarize_for_image r context =
     (let full_name = strip (strip (dict_get r (str ''first_name'') []) @ str '' ''
                             @ strip (dict_get r (str ''last_name'') []))
      in (str ''Create a friendly, professional portrait for '')
         @ (if full_name \<noteq> [] then full_name else str ''this contact'')
         @ str '' who works at '' @ dict_get r (str ''company'') (str ''unknown company'') @ str ''. ''
         @ str ''Highlight cues from the business card: phone '' @ dict_get r (str ''phone'') (str ''n/a'')
         @ str '', email '' @ dict_get r (str ''email'') (str ''n/a'') @ str ''. ''
         @ str ''Meeting context: '' @ meeting_context context
         @ str ''. Priorities: '' @ priorities context
         @ str ''. Personal details: '' @ personal_notes context @ str ''. ''
         @ str ''Style: clean, corporate-ready, subtle background with company color hints, photographic realism.'')"

text \<open>
  The response model: the twelve text fields, the two image URLs, which are \<open>None\<close> when
  the record has no such image, and the raw extraction text.
\<close>

datatype card_response =
  CardResponse (text_fields: row) (source_image_url: "ustring option")
    (summary_image_url: "ustring option") (raw_ocr_json: ustring)

definition response_fields :: "ustring list" where
  "response_fields =
     [str ''id'', str ''first_name'', str ''last_name'', str ''company'', str ''company_logo_description'',
      str ''email'', str ''phone'', str ''address'', str ''meeting_context'', str ''priorities'',
      str ''personal_notes'', str ''captured_at'']"

definition media_url :: "row \<Rightarrow> ustring \<Rightarrow> ustring option" where
  "media_url r k =
     (case map_of r k of
        None \<Rightarrow> None
      | Some v \<Rightarrow> if v = [] then None else Some (str ''/media/'' @ v))"

definition serialize_record :: "row \<Rightarrow> card_response" where
  "serialize_record r =
     CardResponse (map (\<lambda>k. (k, dict_get r k [])) response_fields)
       (media_url r (str ''source_image'')) (media_url r (str ''summary_image''))
       (dict_get r (str ''raw_ocr_json'') (str ''{}''))"

text \<open>
  \<open>save_image\<close> writes the bytes under the file name in the image directory and
  returns \<open>path.name\<close>, the last component of the path. Every file name the program
  builds ends in a suffix, not in a slash.
\<close>

definition path_name :: "ustring \<Rightarrow> ustring" where
  "path_name p = rev (takeWhile (\<lambda>c. c \<noteq> Chr (CHR ''/'')) (rev p))"

definition save_image :: "bytes \<Rightarrow> ustring \<Rightarrow> store \<Rightarrow> ustring \<times> store" where
  "save_image image_bytes filename st =
     (path_name filename, st\<lparr>images := AList.update filename image_bytes (images st)\<rparr>)"

section \<open>The endpoints\<close>

text \<open>
  What the program gets from outside is a parameter of the model. \<open>env\<close> collects the
  library and service calls: the EXIF reader of Pillow (\<open>Image.open\<close> and \<open>getexif\<close>),
  its table \<open>ExifTags.TAGS\<close>, \<open>datetime.strptime\<close> with the fixed
  pattern, \<open>base64.b64encode\<close>, the chat completion service (the text of the first
  choice, \<open>None\<close> when it has no content), \<open>json.loads\<close> and \<open>json.dumps\<close>, and
  \<open>Path.suffix\<close>. The program declares the extraction result as \<open>Dict[str, str]\<close>, and
  so does the model.

  Modelled from the spec: \<open>create_image\<close> is the function of \<open>backend/utils.py\<close>, which
  is not among the sources. It is the image generation adapter of the spec, which
  requests a generated image from an external service: given the prompt and the size it
  returns the bytes of the image, or the error that a failed generation raises. A call
  of it is a request to the service, recorded in \<open>image_calls\<close>.
\<close>

record env =
  env_getexif :: "bytes \<Rightarrow> error + exif"
  env_tags :: "nat \<Rightarrow> ustring option"
  env_strptime :: "ustring \<Rightarrow> datetime option"
  env_b64encode :: "bytes \<Rightarrow> ustring"
  env_chat_completion :: "chat_request \<Rightarrow> error + ustring option"
  env_json_loads :: "ustring \<Rightarrow> error + row"
  env_json_dumps :: "row \<Rightarrow> ustring"
  env_path_suffix :: "ustring \<Rightarrow> ustring"
  env_create_image :: "ustring \<Rightarrow> ustring \<Rightarrow> error + bytes"

text \<open>An uploaded file: its name and content type, when the request gives them, and
  its bytes.\<close>

record upload =
  upload_filename :: "ustring option"
  upload_content_type :: "ustring option"
  upload_content :: bytes

text \<open>\<open>x or dflt\<close> for an optional string: the default when it is \<open>None\<close> or empty.\<close>

definition or_default :: "ustring option \<Rightarrow> ustring \<Rightarrow> ustring" where
  "or_default x dflt = (case x of None \<Rightarrow> dflt | Some v \<Rightarrow> if v = [] then dflt else v)"

definition system_prompt :: ustring where
  "system_prompt =
     str ''You extract business card details. Respond with JSON only and include the keys: ''
     @ str ''first_name, last_name, company, company_logo_description, email, phone, address.''"

definition user_prompt :: ustring where
  "user_prompt =
     str ''Extract the contact details from this business card. ''
     @ str ''Use empty strings for missing values and keep phone numbers exactly as shown.''"

definition extraction_request :: "env \<Rightarrow> bytes \<Rightarrow> ustring option \<Rightarrow> chat_request" where
  "extraction_request ev image_bytes ctype =
     (let mime_type = or_default ctype (str ''image/png'');
          b64 = env_b64encode ev image_bytes;
          data_url = str ''data:'' @ mime_type @ str '';base64,'' @ b64
      in \<lparr>model = str ''gpt-4o-mini'', system_content = system_prompt, user_text = user_prompt,
          image_url = data_url, temperature = 0, response_format = (str ''json_object'')\<rparr>)"

definition extract_card_details ::
  "env \<Rightarrow> bytes \<Rightarrow> ustring option \<Rightarrow> store \<Rightarrow> (error + row) \<times> store" where
  "extract_card_details ev image_bytes ctype st =
     (let request = extraction_request ev image_bytes ctype;
          st1 = st\<lparr>chat_calls := chat_calls st @ [request]\<rparr>
      in case env_chat_completion ev request of
           Inl e \<Rightarrow> (Inl e, st1)
         | Inr None \<Rightarrow> (Inl AttributeError, st1)
         | Inr (Some text) \<Rightarrow> (parse_json_blob (env_json_loads ev) text, st1))"

text \<open>The record that \<open>upload_card\<close> builds.\<close>

definition new_record :: "env \<Rightarrow> ustring \<Rightarrow> row \<Rightarrow> ustring \<Rightarrow> ustring \<Rightarrow> row" where
  "new_record ev card_id extracted capture_time source_image_name =
     [(str ''id'', card_id),
      (str ''first_name'', dict_get extracted (str ''first_name'') []),
      (str ''last_name'', dict_get extracted (str ''last_name'') []),
      (str ''company'', dict_get extracted (str ''company'') []),
      (str ''company_logo_description'', dict_get extracted (str ''company_logo_description'') []),
      (str ''email'', dict_get extracted (str ''email'') []),
      (str ''phone'', dict_get extracted (str ''phone'') []),
      (str ''address'', dict_get extracted (str ''address'') []),
      (str ''meeting_context'', []),
      (str ''priorities'', []),
      (str ''personal_notes'', []),
      (str ''captured_at'', capture_time),
      (str ''source_image'', source_image_name),
      (str ''summary_image'', []),
      (str ''raw_ocr_json'', env_json_dumps ev extracted)]"

text \<open>
  The handler of \<open>POST /api/cards\<close>. \<open>now\<close> is the clock at the request and
  \<open>card_id\<close> the string of the fresh \<open>uuid.uuid4()\<close>; \<open>file\<close> is \<open>None\<close> when the
  handler is given no file.
\<close>

definition upload_card ::
  "env \<Rightarrow> datetime \<Rightarrow> ustring \<Rightarrow> upload option \<Rightarrow> store \<Rightarrow> (error + card_response) \<times> store" where
  "upload_card ev now card_id file st =
     (case file of
        None \<Rightarrow> (Inl (HTTPException 400 (str ''No file uploaded.'')), st)
      | Some f \<Rightarrow>
          (let image_bytes = upload_content f in
           if image_bytes = [] then (Inl (HTTPException 400 (str ''Uploaded file is empty.'')), st)
           else
            (case extract_capture_datetime (env_tags ev) (env_strptime ev) (env_getexif ev) now image_bytes of
               Inl e \<Rightarrow> (Inl e, st)
             | Inr capture_time \<Rightarrow>
                (case extract_card_details ev image_bytes (upload_content_type f) st of
                   (Inl e, st1) \<Rightarrow> (Inl e, st1)
                 | (Inr extracted, st1) \<Rightarrow>
                    (let source_ext = or_default (Some (env_path_suffix ev (or_default (upload_filename f) (str ''card.png'')))) (str ''.png'');
                         (source_image_name, st2) =
                            save_image image_bytes (card_id @ str ''_source'' @ source_ext) st1;
                         r = new_record ev card_id extracted capture_time source_image_name
                     in case load_records st2 of
                          (Inl e, st3) \<Rightarrow> (Inl e, st3)
                        | (Inr records, st3) \<Rightarrow>
                            (case write_records (records @ [r]) st3 of
                               (Inl e, st4) \<Rightarrow> (Inl e, st4)
                             | (Inr u, st4) \<Rightarrow> (Inr (serialize_record r), st4)))))))"



text \<open>\<open>POST /api/cards/{card_id}/context\<close>.\<close>

definition context_changes :: "card_context \<Rightarrow> row" where
  "context_changes payload =
     [(str ''meeting_context'', meeting_context payload),
      (str ''priorities'', priorities payload),
      (str ''personal_notes'', personal_notes payload)]"

definition IMAGE_SIZE :: ustring where
  "IMAGE_SIZE = str ''1024x1024''"

definition save_context ::
  "env \<Rightarrow> ustring \<Rightarrow> card_context \<Rightarrow> store \<Rightarrow> (error + card_response) \<times> store" where
  "save_context ev card_id payload st =
     (case update_record card_id (context_changes payload) st of
        (Inl e, st1) \<Rightarrow> (Inl e, st1)
      | (Inr r, st1) \<Rightarrow>
          (let summary_prompt = summarize_for_image r payload;
               st2 = st1\<lparr>image_calls := image_calls st1 @ [(summary_prompt, IMAGE_SIZE)]\<rparr>
           in case env_create_image ev summary_prompt IMAGE_SIZE of
                Inl e \<Rightarrow> (Inl e, st2)
              | Inr summary_bytes \<Rightarrow>
                  (let (summary_image_name, st3) =
                         save_image summary_bytes (card_id @ str ''_summary.png'') st2
                   in case update_record card_id [(str ''summary_image'', summary_image_name)] st3 of
                        (Inl e, st4) \<Rightarrow> (Inl e, st4)
                      | (Inr r', st4) \<Rightarrow> (Inr (serialize_record r'), st4))))"

text \<open>\<open>GET /api/cards\<close> and \<open>GET /api/cards/{card_id}\<close>.\<close>

definition list_cards :: "store \<Rightarrow> (error + card_response list) \<times> store" where
  "list_cards st =
     (case load_records st of
        (Inl e, st1) \<Rightarrow> (Inl e, st1)
      | (Inr records, st1) \<Rightarrow> (Inr (map serialize_record records), st1))"

fun find_card :: "ustring \<Rightarrow> row list \<Rightarrow> error + row option" where
  "find_card card_id [] = Inr None"
| "find_card card_id (r # rest) =
     (case map_of r (str ''id'') of
        None \<Rightarrow> Inl KeyError
      | Some v \<Rightarrow> if v = card_id then Inr (Some r) else find_card card_id rest)"

definition get_card :: "ustring \<Rightarrow> store \<Rightarrow> (error + card_response) \<times> store" where
  "get_card card_id st =
     (case load_records st of
        (Inl e, st1) \<Rightarrow> (Inl e, st1)
      | (Inr records, st1) \<Rightarrow>
          (case find_card card_id records of
             Inl e \<Rightarrow> (Inl e, st1)
           | Inr None \<Rightarrow> (Inl (HTTPException 404 (str ''Card not found'')), st1)
           | Inr (Some r) \<Rightarrow> (Inr (serialize_record r), st1)))"

section \<open>What the store holds\<close>

text \<open>The values that \<open>DictWriter\<close> writes for a record (a key the record lacks is
  written as the empty string), the record that \<open>DictReader\<close> builds from them, and
  the text of the data file after \<open>write_records\<close> has written a list of records.\<close>

definition stored_values :: "row \<Rightarrow> ustring list" where
  "stored_values r = map (\<lambda>k. dict_get r k []) COLUMNS"

definition stored_row :: "row \<Rightarrow> row" where
  "stored_row r = zip COLUMNS (stored_values r)"

definition file_text :: "row list \<Rightarrow> ustring" where
  "file_text records = csv_row COLUMNS @ concat (map (\<lambda>r. csv_row (stored_values r)) records)"

text \<open>A record fits the store when its keys are stored columns, no value is longer
  than the reader's field size limit, and no value has a lone surrogate.\<close>

definition keys_ok :: "row \<Rightarrow> bool" where
  "keys_ok r = list_all (\<lambda>k. k \<in> set COLUMNS) (map fst r)"

definition values_ok :: "row \<Rightarrow> bool" where
  "values_ok r = list_all (\<lambda>v. length v \<le> field_size_limit) (stored_values r)"

definition encodable_row :: "row \<Rightarrow> bool" where
  "encodable_row r = list_all encodable (stored_values r)"

text \<open>A text with a lone surrogate (the letter \<open>A\<close> and \<open>U+D83D\<close>), and a text
  longer than the field size limit.\<close>

definition broken_text :: ustring where
  "broken_text = [Chr (CHR ''A''), lone_surrogate]"

definition long_text :: ustring where
  "long_text = replicate (Suc field_size_limit) (Chr (CHR ''a''))"

text \<open>The position of the first record with the given id (the length of the list when
  there is none), and the list after \<open>update_record\<close> has merged the changes into it.\<close>

definition first_match :: "ustring \<Rightarrow> row list \<Rightarrow> nat" where
  "first_match card_id records =
     length (takeWhile (\<lambda>r. map_of r (str ''id'') \<noteq> Some card_id) records)"

definition merged :: "ustring \<Rightarrow> row \<Rightarrow> row list \<Rightarrow> row list" where
  "merged card_id changes records =
     records[first_match card_id records :=
               dict_update (records ! first_match card_id records) changes]"

text \<open>Every record has an id.\<close>

definition have_ids :: "row list \<Rightarrow> bool" where
  "have_ids records = list_all (\<lambda>r. map_of r (str ''id'') \<noteq> None) records"

text \<open>The keys that \<open>upload_card\<close> reads from the extraction result; the system prompt
  names the same keys.\<close>

definition extraction_keys :: "ustring list" where
  "extraction_keys =
     [str ''first_name'', str ''last_name'', str ''company'', str ''company_logo_description'', str ''email'',
      str ''phone'', str ''address'']"

section \<open>Sample values\<close>

text \<open>Concrete values at which the theorems below are instantiated: an environment
  whose services answer, one whose image service fails, an empty store, a record and a
  store that holds it.\<close>

definition sample_now :: datetime where
  "sample_now =
     \<lparr>year = 2024, month = 3, day = 9, hour = 7, minute = 5, second = 0, microsecond = 0\<rparr>"

text \<open>An excerpt of \<open>ExifTags.TAGS\<close>, a \<open>strptime\<close> that parses two texts, the EXIF
  data of a camera picture (the capture time is in the Exif directory, IFD0 holds the
  maker and the pointer to that directory) and of a scan (the time is in IFD0, after an
  entry that is no time tag).\<close>

definition sample_tags :: "nat \<Rightarrow> ustring option" where
  "sample_tags n =
     (if n = 271 then Some (str ''Make'')
      else if n = 305 then Some (str ''Software'')
      else if n = 306 then Some (str ''DateTime'')
      else if n = 34665 then Some (str ''ExifOffset'')
      else if n = 36867 then Some (str ''DateTimeOriginal'')
      else if n = 36868 then Some (str ''DateTimeDigitized'')
      else None)"

definition sample_taken :: datetime where
  "sample_taken =
     \<lparr>year = 2020, month = 1, day = 2, hour = 3, minute = 4, second = 5, microsecond = 0\<rparr>"

definition sample_strptime :: "ustring \<Rightarrow> datetime option" where
  "sample_strptime s =
     (if s = str ''2020:01:02 03:04:05'' then Some sample_taken
      else if s = str ''2019:12:31 23:59:59''
      then Some \<lparr>year = 2019, month = 12, day = 31, hour = 23, minute = 59, second = 59,
                  microsecond = 0\<rparr>
      else None)"

definition camera_exif :: exif where
  "camera_exif =
     \<lparr>ifd0 = [(271, ExifText (str ''Canon'')), (34665, ExifOther)],
      exif_ifd = [(36867, ExifText (str ''2020:01:02 03:04:05''))]\<rparr>"

definition scanner_exif :: exif where
  "scanner_exif =
     \<lparr>ifd0 = [(305, ExifText (str ''2019:12:31 23:59:59'')),
              (306, ExifText (str ''2020:01:02 03:04:05''))],
      exif_ifd = []\<rparr>"

definition sample_env :: env where
  "sample_env =
     \<lparr>env_getexif = (\<lambda>b. Inl (ExternalError (str ''cannot identify image file''))),
      env_tags = (\<lambda>n. None), env_strptime = (\<lambda>s. None),
      env_b64encode = (\<lambda>b. str ''SU1H''),
      env_chat_completion = (\<lambda>request. Inr (Some (str ''{}''))),
      env_json_loads = (\<lambda>s. Inr [(str ''first_name'', str ''Ada''), (str ''company'', str ''Engines, Ltd'')]),
      env_json_dumps = (\<lambda>r. str ''{}''),
      env_path_suffix = (\<lambda>p. str ''.jpg''),
      env_create_image = (\<lambda>prompt size. Inr ''PNG'')\<rparr>"

definition failing_env :: env where
  "failing_env = sample_env\<lparr>env_create_image := (\<lambda>prompt size. Inl (ExternalError (str ''quota'')))\<rparr>"

definition empty_store :: store where
  "empty_store = \<lparr>data_file = None, images = [], chat_calls = [], image_calls = []\<rparr>"

definition sample_upload :: upload where
  "sample_upload =
     \<lparr>upload_filename = Some (str ''card.jpg''), upload_content_type = None, upload_content = ''IMG''\<rparr>"

definition sample_context :: card_context where
  "sample_context =
     \<lparr>meeting_context = str ''Expo'', priorities = str ''Hiring'', personal_notes = str ''Chess''\<rparr>"

text \<open>A context with a note longer than the field size limit, and one with a lone
  surrogate in its priorities.\<close>

definition long_context :: card_context where
  "long_context =
     \<lparr>meeting_context = str ''Expo'', priorities = str ''Hiring'', personal_notes = long_text\<rparr>"

definition broken_context :: card_context where
  "broken_context =
     \<lparr>meeting_context = str ''Expo'', priorities = broken_text, personal_notes = str ''Chess''\<rparr>"

definition sample_record :: row where
  "sample_record =
     new_record sample_env (str ''id-1'') [(str ''first_name'', str ''Ada''), (str ''company'', str ''Engines, Ltd'')]
       (str ''2024-03-09T07:05:00+00:00'') (str ''id-1_source.jpg'')"

definition other_record :: row where
  "other_record =
     new_record sample_env (str ''id-2'') [(str ''first_name'', str ''Bob'')]
       (str ''2024-03-09T08:00:00+00:00'') (str ''id-2_source.jpg'')"

definition sample_store :: store where
  "sample_store = empty_store\<lparr>data_file := Some (file_text [sample_record, other_record])\<rparr>"

text \<open>The store after a context with an overlong note has been submitted for the first
  sample record.\<close>

definition overlong_store :: store where
  "overlong_store = snd (save_context sample_env (str ''id-1'') long_context sample_store)"

section \<open>Facts about the string operations\<close>


lemma dropWhile_append_stop:
  "\<not> P y \<Longrightarrow> dropWhile P (xs @ y # ys) = dropWhile P xs @ y # ys"
  by (induction xs) auto

lemma contains_Cons:
  "contains sep (c # cs) = (prefix sep (c # cs) \<or> contains sep cs)"
  by (simp add: contains_def)

lemma run_clean_Cons: "run_clean x (c # cs) \<Longrightarrow> run_clean x cs"
  by (auto simp: run_clean_def contains_Cons)

lemma run_clean_no_prefix:
  assumes "run_clean x (c # cs)"
  shows "\<not> prefix [x, x, x] (c # cs @ t)"
proof (cases cs)
  case Nil
  with assms show ?thesis by (auto simp: run_clean_def)
next
  case (Cons d r)
  show ?thesis
  proof (cases r)
    case Nil
    with Cons assms show ?thesis by (auto simp: run_clean_def)
  next
    case (Cons e r')
    with \<open>cs = d # r\<close> assms show ?thesis by (auto simp: run_clean_def contains_Cons)
  qed
qed

lemma find_sub_triple:
  "run_clean x a \<Longrightarrow> find_sub [x, x, x] (a @ [x, x, x] @ b) = Some (length a)"
proof (induction a)
  case Nil
  then show ?case by simp
next
  case (Cons c cs)
  from run_clean_no_prefix[OF Cons.prems]
  have "\<not> prefix [x, x, x] (c # cs @ [x, x, x] @ b)" .
  with Cons.IH run_clean_Cons[OF Cons.prems] show ?case by simp
qed

lemma not_contains_triple_append:
  "run_clean x a \<Longrightarrow> x \<notin> set t \<Longrightarrow> \<not> contains [x, x, x] (a @ t)"
proof (induction a)
  case Nil
  then show ?case by (induction t) (auto simp: contains_Cons contains_def)
next
  case (Cons c cs)
  from run_clean_no_prefix[OF Cons.prems(1)] have "\<not> prefix [x, x, x] (c # cs @ t)" .
  with Cons.IH run_clean_Cons[OF Cons.prems(1)] Cons.prems(2) show ?case
    by (simp add: contains_Cons)
qed

lemma not_contains_triple_prepend:
  "x \<notin> set h \<Longrightarrow> \<not> contains [x, x, x] a \<Longrightarrow> \<not> contains [x, x, x] (h @ a)"
  by (induction h) (auto simp: contains_Cons)

lemma run_clean_no_elem: "x \<notin> set a \<Longrightarrow> run_clean x a"
  using not_contains_triple_prepend[of x a "[]"] by (auto simp: run_clean_def contains_def)

lemma split_str_cut:
  assumes "run_clean x a"
  shows "split_str [x, x, x] (a @ [x, x, x] @ b) = a # split_str [x, x, x] b"
  using find_sub_triple[OF assms, of b]
  by (subst split_str.simps) simp

lemma split_str_nonempty: "split_str sep s \<noteq> []"
  by (subst split_str.simps) (auto split: option.splits)

lemma backtick_not_space: "\<not> is_space (Chr (CHR 0x60))"
  by (simp add: is_space_def)

lemma lstrip_stop: "\<not> is_space c \<Longrightarrow> lstrip (pre @ c # r) = lstrip pre @ c # r"
  by (simp add: lstrip_def dropWhile_append_stop)

lemma rstrip_stop: "\<not> is_space d \<Longrightarrow> rstrip (a @ d # post) = a @ d # rstrip post"
  by (simp add: rstrip_def dropWhile_append_stop)

lemma strip_between:
  assumes "\<not> is_space c" "\<not> is_space d"
  shows "strip (pre @ c # m @ d # post) = lstrip pre @ c # m @ d # rstrip post"
proof -
  have "rstrip ((lstrip pre @ c # m) @ d # post) = (lstrip pre @ c # m) @ d # rstrip post"
    using assms(2) by (rule rstrip_stop)
  then show ?thesis
    using assms(1) by (simp add: strip_def lstrip_stop)
qed

lemma strip_fenced:
  "strip (pre @ fence @ m @ fence @ post) = lstrip pre @ fence @ m @ fence @ rstrip post"
  using strip_between[OF backtick_not_space backtick_not_space,
      of pre "Chr (CHR 0x60) # Chr (CHR 0x60) # m @ [Chr (CHR 0x60), Chr (CHR 0x60)]" post]
  by (simp add: fence_def)

lemma set_lstrip: "set (lstrip s) \<subseteq> set s"
  by (auto simp: lstrip_def dest: set_dropWhileD)

lemma prefix_before_foreign:
  assumes "prefix p (h @ x # r)" "x \<notin> set p"
  shows "prefix p h"
proof -
  from assms(1) consider "prefix p h" | us where "p = h @ us" "prefix us (x # r)"
    by (auto simp: prefix_append)
  then show ?thesis
  proof cases
    case 1
    then show ?thesis .
  next
    case 2
    with assms(2) show ?thesis by (cases us) auto
  qed
qed

lemma find_sub_single:
  "x \<notin> set h \<Longrightarrow> find_sub [x] (h @ x # r) = Some (length h)"
  by (induction h) auto

lemma brace_slice_object:
  assumes "Chr (CHR ''{'') \<notin> set h" "Chr (CHR ''}'') \<notin> set t"
  shows "brace_slice (h @ Chr (CHR ''{'') # mid @ Chr (CHR ''}'') # t) = Chr (CHR ''{'') # mid @ [Chr (CHR ''}'')]"
proof -
  let ?s = "h @ Chr (CHR ''{'') # mid @ Chr (CHR ''}'') # t"
  have a: "find_sub [Chr (CHR ''{'')] ?s = Some (length h)"
    using find_sub_single[OF assms(1)] by simp
  have "rev ?s = rev t @ Chr (CHR ''}'') # (rev mid @ Chr (CHR ''{'') # rev h)"
    by simp
  then have "find_sub [Chr (CHR ''}'')] (rev ?s) = Some (length t)"
    using find_sub_single[of "Chr (CHR ''}'')" "rev t"] assms(2) by simp
  then have b: "rfind_sub [Chr (CHR ''}'')] ?s = Some (length h + length mid + 1)"
    by (simp add: rfind_sub_def)
  show ?thesis
    by (simp add: brace_slice_def a b slice_def)
qed

lemma contains_self_append: "contains sep (sep @ b)"
proof (cases "sep @ b")
  case Nil
  then show ?thesis by (simp add: contains_def)
next
  case (Cons c cs)
  then have "prefix sep (c # cs)" by (metis prefixI)
  with Cons show ?thesis by (simp add: contains_def)
qed

lemma contains_appendI2: "contains sep b \<Longrightarrow> contains sep (a @ b)"
  by (induction a) (auto simp: contains_Cons)

lemma contains_appendI1: "contains sep a \<Longrightarrow> contains sep (a @ b)"
proof (induction a)
  case Nil
  then have "sep = []" by (simp add: contains_def split: if_splits)
  then show ?case using contains_self_append[of "[]" b] by simp
next
  case (Cons c cs)
  from Cons.prems consider "prefix sep (c # cs)" | "contains sep cs"
    by (auto simp: contains_Cons)
  then show ?case
  proof cases
    case 1
    then have "prefix sep ((c # cs) @ b)" by (rule prefix_prefix)
    then show ?thesis by (simp add: contains_Cons)
  next
    case 2
    with Cons.IH show ?thesis by (simp add: contains_Cons)
  qed
qed

lemma contains_strip: "contains sep (strip s) \<Longrightarrow> contains sep s"
proof -
  assume a: "contains sep (strip s)"
  have "lstrip s = strip s @ rev (takeWhile is_space (rev (lstrip s)))"
    using takeWhile_dropWhile_id[of is_space "rev (lstrip s)"]
    by (metis rev_append rev_rev_ident rstrip_def strip_def)
  then have "contains sep (lstrip s)"
    using a contains_appendI1 by metis
  moreover have "s = takeWhile is_space s @ lstrip s"
    by (simp add: lstrip_def)
  ultimately show ?thesis
    using contains_appendI2 by metis
qed

lemma contains_lstrip: "contains sep (lstrip s) \<Longrightarrow> contains sep s"
  using contains_appendI2[of sep "lstrip s" "takeWhile is_space s"]
  by (simp add: lstrip_def)

text \<open>A text ends in a run of \<open>x\<close>, which may be empty; the run has fewer than three
  elements when \<open>xxx\<close> does not occur in the text.\<close>

lemma trailing_run:
  "\<exists>p' k. p = p' @ replicate k x \<and> (p' = [] \<or> last p' \<noteq> x)"
proof (induction p rule: rev_induct)
  case Nil
  show ?case by (intro exI[of _ "[]"] exI[of _ 0]) simp
next
  case (snoc y ys)
  then obtain p' k where ys: "ys = p' @ replicate k x" "p' = [] \<or> last p' \<noteq> x"
    by blast
  show ?case
  proof (cases "y = x")
    case True
    have "ys @ [y] = p' @ replicate (Suc k) x"
      using ys(1) True by (simp add: replicate_append_same)
    with ys(2) show ?thesis by blast
  next
    case False
    then have "ys @ [y] = (ys @ [y]) @ replicate 0 x \<and> (ys @ [y] = [] \<or> last (ys @ [y]) \<noteq> x)"
      by simp
    then show ?thesis by blast
  qed
qed

lemma short_run:
  assumes "\<not> contains [x, x, x] (p' @ replicate k x)"
  shows "k < 3"
proof (rule ccontr)
  assume "\<not> k < 3"
  then have "k = (k - 3) + 3" by simp
  then have "replicate k x = replicate (k - 3) x @ replicate 3 x"
    by (metis replicate_add)
  then have "p' @ replicate k x = (p' @ replicate (k - 3) x) @ ([x, x, x] @ [])"
    by (simp add: numeral_3_eq_3)
  moreover have "contains [x, x, x] ((p' @ replicate (k - 3) x) @ ([x, x, x] @ []))"
    by (rule contains_appendI2) (rule contains_self_append)
  ultimately have "contains [x, x, x] (p' @ replicate k x)"
    by (simp only:)
  with assms show False by simp
qed

lemma run_Cons: "replicate i x @ x # r = x # replicate i x @ r"
  by (induction i) simp_all

lemma replicate_run_commute:
  "replicate k x @ [x, x, x] @ r = [x, x, x] @ replicate k x @ r"
  by (induction k) simp_all

lemma run_clean_after_run:
  assumes "run_clean x m" "m \<noteq> []" "hd m \<noteq> x" "k < 3"
  shows "run_clean x (replicate k x @ m)"
proof -
  obtain c cs where m: "m = c # cs" "c \<noteq> x"
    using assms(2,3) by (cases m) auto
  from assms(4) consider "k = 0" | "k = 1" | "k = 2" by arith
  then show ?thesis
  proof cases
    case 1
    with assms(1) show ?thesis by simp
  next
    case 2
    with assms(1) m show ?thesis by (auto simp: run_clean_def contains_Cons)
  next
    case 3
    then have "replicate k x = [x, x]" by (simp add: numeral_2_eq_2)
    with assms(1) m show ?thesis by (auto simp: run_clean_def contains_Cons)
  qed
qed

lemma leading_run:
  "\<exists>j s'. s = replicate j x @ s' \<and> (s' = [] \<or> hd s' \<noteq> x)"
proof (induction s)
  case Nil
  show ?case by (intro exI[of _ 0] exI[of _ "[]"]) simp
next
  case (Cons c cs)
  then obtain j s' where cs: "cs = replicate j x @ s'" "s' = [] \<or> hd s' \<noteq> x"
    by blast
  show ?case
  proof (cases "c = x")
    case True
    have "c # cs = replicate (Suc j) x @ s'"
      using cs(1) True by simp
    with cs(2) show ?thesis by blast
  next
    case False
    then have "c # cs = replicate 0 x @ (c # cs) \<and> (c # cs = [] \<or> hd (c # cs) \<noteq> x)"
      by simp
    then show ?thesis by blast
  qed
qed

text \<open>
  The text between the first pair of fences. \<open>split\<close> cuts at the leftmost run of
  three backticks, so the backticks that the prose before the opening fence ends in and
  those that the header starts with come out in front of the piece, and those that the
  trailer ends in are cut off it.
\<close>

lemma defence_fenced:
  assumes "\<not> contains fence (pre @ hdr)" and "\<not> contains fence (hdr @ body @ trail)"
    and "body = c # rest" and "c \<noteq> Chr (CHR 0x60)" and "last body \<noteq> Chr (CHR 0x60)"
  shows "\<exists>h' t'. set h' \<subseteq> insert (Chr (CHR 0x60)) (set hdr) \<and> set t' \<subseteq> set trail
           \<and> defence (pre @ fence @ hdr @ body @ trail @ fence @ post)
               = (if prefix (str ''json'') (h' @ body @ t') then drop 4 (h' @ body @ t')
                  else h' @ body @ t')"
proof -
  let ?x = "Chr (CHR 0x60)"
  let ?F = "[?x, ?x, ?x]"
  let ?p = "lstrip pre" and ?q = "rstrip post"
  obtain p' k where p: "?p = p' @ replicate k ?x" "p' = [] \<or> last p' \<noteq> ?x"
    using trailing_run[of ?p ?x] by blast
  obtain j hdr' where h: "hdr = replicate j ?x @ hdr'" "hdr' = [] \<or> hd hdr' \<noteq> ?x"
    using leading_run[of hdr ?x] by blast
  obtain t' i where t: "trail = t' @ replicate i ?x" "t' = [] \<or> last t' \<noteq> ?x"
    using trailing_run[of trail ?x] by blast
  let ?inner = "hdr' @ body @ t'"
  let ?M = "replicate (k + j) ?x @ ?inner"
  have e: "pre @ hdr = takeWhile is_space pre @ (?p @ hdr)"
    by (simp add: lstrip_def)
  have "contains ?F (?p @ hdr) \<Longrightarrow> contains ?F (pre @ hdr)"
    by (subst e) (rule contains_appendI2)
  then have "\<not> contains ?F (?p @ hdr)"
    using assms(1) by (auto simp: fence_def)
  moreover have "?p @ hdr = (p' @ replicate (k + j) ?x) @ hdr'"
    using p(1) h(1) by (simp add: replicate_add)
  ultimately have n1: "\<not> contains ?F (p' @ replicate (k + j) ?x)"
    using contains_appendI1[of ?F "p' @ replicate (k + j) ?x" hdr'] by auto
  then have kj: "k + j < 3"
    by (rule short_run)
  have "\<not> contains ?F p'"
    using n1 contains_appendI1[of ?F p' "replicate (k + j) ?x"] by auto
  with p(2) have cp: "run_clean ?x p'"
    by (simp add: run_clean_def)
  have "hdr @ body @ trail = replicate j ?x @ (?inner @ replicate i ?x)"
    using h(1) t(1) by simp
  then have "\<not> contains ?F (?inner @ replicate i ?x)"
    using assms(2) contains_appendI2[of ?F "?inner @ replicate i ?x" "replicate j ?x"]
    by (auto simp: fence_def)
  then have ni: "\<not> contains ?F ?inner"
    using contains_appendI1[of ?F ?inner "replicate i ?x"] by auto
  have ne: "?inner \<noteq> []"
    using assms(3) by simp
  have hd: "hd ?inner \<noteq> ?x"
    using h(2) assms(3,4) by (cases hdr') auto
  have "last ?inner \<noteq> ?x"
    using t(2) assms(3,5) by (cases "t' = []") auto
  with ni ne have "run_clean ?x ?inner"
    by (simp add: run_clean_def)
  then have cm: "run_clean ?x ?M"
    using ne hd kj by (rule run_clean_after_run)
  have "?p @ fence @ (hdr @ body @ trail) @ fence @ ?q
      = p' @ ?F @ (?M @ ?F @ (replicate i ?x @ ?q))"
    using p(1) h(1) t(1) by (simp add: fence_def run_Cons replicate_add)
  then have s: "strip (pre @ fence @ hdr @ body @ trail @ fence @ post)
      = p' @ ?F @ (?M @ ?F @ (replicate i ?x @ ?q))"
    using strip_fenced[of pre "hdr @ body @ trail" post] by simp
  have c: "contains ?F (p' @ ?F @ (?M @ ?F @ (replicate i ?x @ ?q)))"
    using find_sub_triple[OF cp] by (simp add: contains_def)
  have "split_str ?F (p' @ ?F @ (?M @ ?F @ (replicate i ?x @ ?q)))
      = p' # ?M # split_str ?F (replicate i ?x @ ?q)"
    using split_str_cut[OF cp] split_str_cut[OF cm] by simp
  moreover obtain z zs where "split_str ?F (replicate i ?x @ ?q) = z # zs"
    using split_str_nonempty[of ?F "replicate i ?x @ ?q"]
    by (cases "split_str ?F (replicate i ?x @ ?q)") auto
  ultimately have "split_str ?F (p' @ ?F @ (?M @ ?F @ (replicate i ?x @ ?q)))
      = p' # ?M # z # zs"
    by simp
  with s c have "defence (pre @ fence @ hdr @ body @ trail @ fence @ post)
      = (if prefix (str ''json'') ?M then drop 4 ?M else ?M)"
    by (simp add: defence_def fence_def)
  then have "defence (pre @ fence @ hdr @ body @ trail @ fence @ post)
      = (if prefix (str ''json'') ((replicate (k + j) ?x @ hdr') @ body @ t')
         then drop 4 ((replicate (k + j) ?x @ hdr') @ body @ t')
         else (replicate (k + j) ?x @ hdr') @ body @ t')"
    by simp
  moreover have "set (replicate (k + j) ?x @ hdr') \<subseteq> insert ?x (set hdr)"
    using h(1) by auto
  moreover have "set t' \<subseteq> set trail"
    using t(1) by auto
  ultimately show ?thesis by blast
qed

lemma defence_unfenced:
  assumes "\<not> contains fence s"
  shows "defence s = (if prefix (str ''json'') (strip s) then drop 4 (strip s) else strip s)"
  using assms contains_strip[of fence s] by (auto simp: defence_def Let_def)

text \<open>Once the fences are gone: when the text is an object between a head without an
  opening brace and a tail without a closing brace, dropping the tag \<open>json\<close> and
  slicing at the braces leaves the object.\<close>

lemma brace_slice_cleaned:
  assumes "Chr (CHR ''{'') \<notin> set h" "Chr (CHR ''}'') \<notin> set t"
  shows "brace_slice (if prefix (str ''json'') (h @ Chr (CHR ''{'') # mid @ Chr (CHR ''}'') # t)
                      then drop 4 (h @ Chr (CHR ''{'') # mid @ Chr (CHR ''}'') # t)
                      else h @ Chr (CHR ''{'') # mid @ Chr (CHR ''}'') # t)
           = Chr (CHR ''{'') # mid @ [Chr (CHR ''}'')]"
proof (cases "prefix (str ''json'') (h @ Chr (CHR ''{'') # mid @ Chr (CHR ''}'') # t)")
  case False
  then show ?thesis using brace_slice_object[OF assms] by simp
next
  case True
  then have "prefix (str ''json'') h"
    by (rule prefix_before_foreign) simp
  then have "4 \<le> length h"
    by (auto dest: prefix_length_le)
  then have d: "drop 4 (h @ Chr (CHR ''{'') # mid @ Chr (CHR ''}'') # t)
      = drop 4 h @ Chr (CHR ''{'') # mid @ Chr (CHR ''}'') # t"
    by simp
  have "Chr (CHR ''{'') \<notin> set (drop 4 h)"
    using assms(1) by (auto dest: in_set_dropD)
  from brace_slice_object[OF this assms(2)] True d show ?thesis by simp
qed

lemma set_rstrip: "set (rstrip s) \<subseteq> set s"
  by (auto simp: rstrip_def dest: set_dropWhileD)

lemma brace_not_space: "\<not> is_space (Chr (CHR ''{''))" "\<not> is_space (Chr (CHR ''}''))"
  by (simp_all add: is_space_def)

section \<open>Facts about the capture time\<close>

lemma scan_exif_find:
  "scan_exif tags strptime items =
     map_option (\<lambda>item. isoformat_utc (the (parse_exif_time strptime (snd item))))
       (find (usable_tag tags strptime) items)"
  by (induction items) (auto simp: usable_tag_def split: option.splits)

lemma find_None_nil: "find P [] = None"
  by simp

lemma extract_capture_datetime_Inr:
  "\<exists>stamp. extract_capture_datetime tags strptime getexif now image_bytes = Inr stamp"
  by (auto simp: extract_capture_datetime_def split: sum.splits option.splits)

lemma extract_capture_datetime_ifd0:
  "extract_capture_datetime tags strptime getexif now image_bytes =
     Inr (case getexif image_bytes of
            Inl e \<Rightarrow> isoformat_utc now
          | Inr exif_data \<Rightarrow>
              (case find (usable_tag tags strptime) (ifd0 exif_data) of
                 None \<Rightarrow> isoformat_utc now
               | Some item \<Rightarrow> isoformat_utc (the (parse_exif_time strptime (snd item)))))"
  by (cases "ifd0 (projr (getexif image_bytes))")
    (auto simp: extract_capture_datetime_def read_exif_time_def scan_exif_find
      simp del: scan_exif.simps split: sum.splits option.splits)

lemma matches_append:
  "matches ps a \<Longrightarrow> matches qs b \<Longrightarrow> matches (ps @ qs) (a @ b)"
  by (induction ps a rule: matches.induct) auto

lemma is_digit_decimal: "is_digit (Chr (char_of (48 + (n::nat) mod 10)))"
proof -
  have "n mod 10 < (10::nat)" by simp
  then have "(48 + n mod 10) mod 256 = 48 + n mod 10" by simp
  then show ?thesis by (simp add: is_digit_def)
qed

lemma matches_zero_pad: "matches (replicate w Digit) (zero_pad w n)"
proof (induction w arbitrary: n)
  case 0
  show ?case by simp
next
  case (Suc w)
  have "matches (replicate w Digit @ [Digit]) (zero_pad w (n div 10) @ [Chr (char_of (48 + n mod 10))])"
    using Suc by (intro matches_append) (simp_all add: is_digit_decimal)
  then show ?case by (simp add: replicate_append_same)
qed

lemma matches_lit: "matches (map Lit s) (str s)"
  by (induction s) auto

lemma is_iso_utc_isoformat: "is_iso_utc (isoformat_utc d)"
proof -
  have two: "replicate 2 Digit = [Digit, Digit]"
    and four: "replicate 4 Digit = [Digit, Digit, Digit, Digit]"
    and six: "replicate 6 Digit = [Digit, Digit, Digit, Digit, Digit, Digit]"
    by (simp_all add: numeral_eq_Suc)
  let ?secs = "zero_pad 4 (year d) @ str ''-'' @ zero_pad 2 (month d) @ str ''-''
     @ zero_pad 2 (day d) @ str ''T'' @ zero_pad 2 (hour d) @ str '':''
     @ zero_pad 2 (minute d) @ str '':'' @ zero_pad 2 (second d)"
  have "matches (replicate 4 Digit @ map Lit ''-'' @ replicate 2 Digit @ map Lit ''-''
       @ replicate 2 Digit @ map Lit ''T'' @ replicate 2 Digit @ map Lit '':''
       @ replicate 2 Digit @ map Lit '':'' @ replicate 2 Digit) ?secs"
    by (intro matches_append matches_zero_pad matches_lit)
  then have secs: "matches iso_seconds ?secs"
    by (simp add: iso_seconds_def two four)
  have off: "matches utc_offset (str ''+00:00'')"
    unfolding utc_offset_def by (rule matches_lit)
  have "matches (map Lit ''.'' @ replicate 6 Digit) (str ''.'' @ zero_pad 6 (microsecond d))"
    by (intro matches_append matches_zero_pad matches_lit)
  then have frac: "matches iso_fraction (str ''.'' @ zero_pad 6 (microsecond d))"
    by (simp add: iso_fraction_def six)
  show ?thesis
  proof (cases "microsecond d = 0")
    case True
    have "matches (iso_seconds @ utc_offset) (?secs @ str ''+00:00'')"
      using secs off by (rule matches_append)
    with True show ?thesis by (simp add: is_iso_utc_def isoformat_utc_def)
  next
    case False
    have "matches (iso_seconds @ iso_fraction @ utc_offset)
        (?secs @ (str ''.'' @ zero_pad 6 (microsecond d)) @ str ''+00:00'')"
      using secs frac off by (intro matches_append)
    with False show ?thesis by (simp add: is_iso_utc_def isoformat_utc_def)
  qed
qed

lemma sample_isoformat:
  "isoformat_utc sample_now = str ''2024-03-09T07:05:00+00:00''"
  "isoformat_utc sample_taken = str ''2020-01-02T03:04:05+00:00''"
  by code_simp+

section \<open>Facts about the CSV reader\<close>

lemma plain_Cons:
  "plain (c # cs) = (c \<noteq> COMMA \<and> c \<noteq> DQUOTE \<and> c \<noteq> CR \<and> c \<noteq> LF \<and> plain cs)"
  by (auto simp: plain_def needs_quotes_def)

lemma specials_distinct:
  "COMMA \<noteq> DQUOTE" "COMMA \<noteq> CR" "COMMA \<noteq> LF" "DQUOTE \<noteq> CR" "DQUOTE \<noteq> LF" "CR \<noteq> LF"
  "DQUOTE \<noteq> COMMA" "CR \<noteq> COMMA" "LF \<noteq> COMMA" "CR \<noteq> DQUOTE" "LF \<noteq> DQUOTE" "LF \<noteq> CR"
  by (simp_all add: COMMA_def DQUOTE_def CR_def LF_def)

lemma line_ends_simps:
  "line_ends LF cs"
  "c \<noteq> LF \<Longrightarrow> c \<noteq> CR \<Longrightarrow> line_ends c (d # ds) = False"
  "line_ends CR (LF # ds) = False"
  by (auto simp: line_ends_def specials_distinct)

lemma read_plain:
  "plain p \<Longrightarrow> length fld + length p \<le> field_size_limit \<Longrightarrow>
   read_text (IN_FIELD, fld, flds) acc (p @ x # rest)
     = read_text (IN_FIELD, fld @ p, flds) acc (x # rest)"
proof (induction p arbitrary: fld)
  case Nil
  then show ?case by simp
next
  case (Cons c cs)
  from Cons.prems have c: "c \<noteq> COMMA" "c \<noteq> DQUOTE" "c \<noteq> CR" "c \<noteq> LF" and cs: "plain cs"
    by (simp_all add: plain_Cons)
  from Cons.prems(2) have len: "length fld < field_size_limit"
    and len': "length (fld @ [c]) + length cs \<le> field_size_limit" by simp_all
  have le: "line_ends c (cs @ x # rest) = False"
    using c by (cases cs) (simp_all add: line_ends_simps)
  have "read_text (IN_FIELD, fld, flds) acc ((c # cs) @ x # rest)
      = read_text (IN_FIELD, fld @ [c], flds) acc (cs @ x # rest)"
    using c len le by (simp add: is_newline_def parse_add_char_def)
  also have "\<dots> = read_text (IN_FIELD, (fld @ [c]) @ cs, flds) acc (x # rest)"
    using cs len' by (rule Cons.IH)
  finally show ?case by simp
qed

lemma read_quoted_body:
  "length fld + length f \<le> field_size_limit \<Longrightarrow>
   read_text (IN_QUOTED_FIELD, fld, flds) acc (double_quotes f @ DQUOTE # x # rest)
     = read_text (QUOTE_IN_QUOTED_FIELD, fld @ f, flds) acc (x # rest)"
proof (induction f arbitrary: fld)
  case Nil
  then show ?case
    by (simp add: double_quotes_def line_ends_simps specials_distinct)
next
  case (Cons c cs)
  from Cons.prems have len: "length fld < field_size_limit"
    and len': "length (fld @ [c]) + length cs \<le> field_size_limit" by simp_all
  let ?tail = "double_quotes cs @ DQUOTE # x # rest"
  obtain d ds where tail: "?tail = d # ds" by (cases ?tail) auto
  have step: "read_text (IN_QUOTED_FIELD, fld, flds) acc (double_quotes (c # cs) @ DQUOTE # x # rest)
      = read_text (IN_QUOTED_FIELD, fld @ [c], flds) acc ?tail"
  proof (cases "c = DQUOTE")
    case True
    have "double_quotes (c # cs) @ DQUOTE # x # rest = DQUOTE # DQUOTE # ?tail"
      using True by (simp add: double_quotes_def)
    then show ?thesis
      using True len tail
      by (simp add: line_ends_simps specials_distinct parse_add_char_def)
  next
    case False
    have "double_quotes (c # cs) @ DQUOTE # x # rest = c # ?tail"
      using False by (simp add: double_quotes_def)
    then show ?thesis
      using False len
      by (simp add: parse_add_char_def split: if_splits)
  qed
  also have "\<dots> = read_text (QUOTE_IN_QUOTED_FIELD, (fld @ [c]) @ cs, flds) acc (x # rest)"
    using len' by (rule Cons.IH)
  finally show ?case by simp
qed


lemma read_field_end:
  assumes "s = IN_FIELD \<or> s = QUOTE_IN_QUOTED_FIELD \<or> s = START_FIELD"
  shows "read_text (s, f, flds) acc (COMMA # d # rest)
           = read_text (START_FIELD, [], flds @ [f]) acc (d # rest)"
    and "read_text (s, f, flds) acc (CR # LF # rest)
           = read_text (EAT_CRNL, [], flds @ [f]) acc (LF # rest)"
  using assms
  by (auto simp: line_ends_simps specials_distinct is_newline_def parse_save_field_def
      end_field_def start_field_def)

lemma read_field_start_record_comma:
  "read_text (START_RECORD, [], flds) acc (COMMA # d # rest)
     = read_text (START_FIELD, [], flds @ [[]]) acc (d # rest)"
  by (auto simp: line_ends_simps specials_distinct is_newline_def parse_save_field_def
      end_field_def start_field_def)

lemma read_eol:
  "read_text (EAT_CRNL, [], flds) acc (LF # rest) = read_text parse_reset (acc @ [flds]) rest"
  by (simp add: line_ends_simps specials_distinct)

lemma read_quoted:
  assumes "length f \<le> field_size_limit" and "s0 = START_RECORD \<or> s0 = START_FIELD"
  shows "read_text (s0, [], flds) acc (quoted f @ x # rest)
           = read_text (QUOTE_IN_QUOTED_FIELD, f, flds) acc (x # rest)"
proof -
  obtain d ds where tail: "double_quotes f @ DQUOTE # x # rest = d # ds"
    by (cases "double_quotes f @ DQUOTE # x # rest") auto
  have "read_text (s0, [], flds) acc (quoted f @ x # rest)
      = read_text (IN_QUOTED_FIELD, [], flds) acc (double_quotes f @ DQUOTE # x # rest)"
    using assms(2) tail
    by (auto simp: quoted_def line_ends_simps specials_distinct is_newline_def start_field_def)
  also have "\<dots> = read_text (QUOTE_IN_QUOTED_FIELD, [] @ f, flds) acc (x # rest)"
    using assms(1) by (intro read_quoted_body) simp
  finally show ?thesis by simp
qed

lemma read_unquoted:
  assumes "length (c # cs) \<le> field_size_limit" and "plain (c # cs)"
    and "s0 = START_RECORD \<or> s0 = START_FIELD"
  shows "read_text (s0, [], flds) acc ((c # cs) @ x # rest)
           = read_text (IN_FIELD, c # cs, flds) acc (x # rest)"
proof -
  from assms(2) have c: "c \<noteq> COMMA" "c \<noteq> DQUOTE" "c \<noteq> CR" "c \<noteq> LF" and cs: "plain cs"
    by (simp_all add: plain_Cons)
  have le: "line_ends c (cs @ x # rest) = False"
    using c by (cases cs) (simp_all add: line_ends_simps)
  have "read_text (s0, [], flds) acc ((c # cs) @ x # rest)
      = read_text (IN_FIELD, [c], flds) acc (cs @ x # rest)"
    using assms(3) c le
    by (auto simp: is_newline_def start_field_def parse_add_char_def field_size_limit_def)
  also have "\<dots> = read_text (IN_FIELD, [c] @ cs, flds) acc (x # rest)"
    using cs assms(1) by (intro read_plain) simp_all
  finally show ?thesis by simp
qed

declare read_text.simps [simp del]

lemma read_field_comma:
  assumes "length f \<le> field_size_limit" and "s0 = START_RECORD \<or> s0 = START_FIELD"
  shows "read_text (s0, [], flds) acc (csv_field f @ COMMA # d # rest)
           = read_text (START_FIELD, [], flds @ [f]) acc (d # rest)"
proof (cases "needs_quotes f")
  case True
  then show ?thesis
    using read_quoted[OF assms] by (simp add: csv_field_def read_field_end)
next
  case False
  show ?thesis
  proof (cases f)
    case Nil
    with False assms(2) show ?thesis
      by (auto simp: csv_field_def read_field_end read_field_start_record_comma)
  next
    case (Cons c cs)
    with False assms read_unquoted[of c cs s0 flds acc COMMA "d # rest"] show ?thesis
      by (simp add: csv_field_def plain_def read_field_end)
  qed
qed

lemma read_field_crlf:
  assumes "length f \<le> field_size_limit" and "s0 = START_FIELD \<or> s0 = START_RECORD \<and> f \<noteq> []"
  shows "read_text (s0, [], flds) acc (csv_field f @ CR # LF # rest)
           = read_text (EAT_CRNL, [], flds @ [f]) acc (LF # rest)"
proof (cases "needs_quotes f")
  case True
  have "s0 = START_RECORD \<or> s0 = START_FIELD" using assms(2) by auto
  with True show ?thesis
    using read_quoted[OF assms(1)] by (simp add: csv_field_def read_field_end)
next
  case False
  show ?thesis
  proof (cases f)
    case Nil
    with False assms(2) show ?thesis
      by (auto simp: csv_field_def read_field_end)
  next
    case (Cons c cs)
    have "s0 = START_RECORD \<or> s0 = START_FIELD" using assms(2) by auto
    with Cons False assms read_unquoted[of c cs s0 flds acc CR "LF # rest"] show ?thesis
      by (simp add: csv_field_def plain_def read_field_end)
  qed
qed

lemma read_fields:
  assumes "fs \<noteq> []" and "\<forall>f\<in>set fs. length f \<le> field_size_limit"
  shows "read_text (START_FIELD, [], flds) acc (join_str [COMMA] (map csv_field fs) @ CR # LF # rest)
           = read_text parse_reset (acc @ [flds @ fs]) rest"
  using assms
proof (induction fs arbitrary: flds rule: list_nonempty_induct)
  case (single f)
  then show ?case by (simp add: read_field_crlf read_eol)
next
  case (cons f fs)
  from cons.hyps obtain g gs where fs: "fs = g # gs" by (cases fs) auto
  let ?tail = "join_str [COMMA] (map csv_field fs) @ CR # LF # rest"
  obtain d ds where tail: "?tail = d # ds"
    by (cases ?tail) auto
  have "read_text (START_FIELD, [], flds) acc
          (join_str [COMMA] (map csv_field (f # fs)) @ CR # LF # rest)
      = read_text (START_FIELD, [], flds) acc (csv_field f @ COMMA # d # ds)"
    using tail fs by simp
  also have "\<dots> = read_text (START_FIELD, [], flds @ [f]) acc (d # ds)"
    using cons.prems by (intro read_field_comma) simp_all
  also have "\<dots> = read_text parse_reset (acc @ [(flds @ [f]) @ fs]) rest"
    unfolding tail[symmetric] using cons.prems by (intro cons.IH) simp
  finally show ?case by simp
qed

lemma read_row:
  assumes "\<forall>f\<in>set fs. length f \<le> field_size_limit" and "2 \<le> length fs"
  shows "read_text parse_reset acc (csv_row fs @ rest) = read_text parse_reset (acc @ [fs]) rest"
proof -
  from assms(2) obtain f g gs where fs: "fs = f # g # gs"
    by (cases fs; cases "tl fs") auto
  obtain d ds where tail: "join_str [COMMA] (map csv_field (g # gs)) @ CR # LF # rest = d # ds"
    by (cases "join_str [COMMA] (map csv_field (g # gs)) @ CR # LF # rest") auto
  have "read_text parse_reset acc (csv_row fs @ rest)
      = read_text (START_RECORD, [], []) acc (csv_field f @ COMMA # d # ds)"
    using fs tail by (simp add: csv_row_def parse_reset_def)
  also have "\<dots> = read_text (START_FIELD, [], [] @ [f]) acc (d # ds)"
    using assms(1) fs by (intro read_field_comma) simp_all
  also have "\<dots> = read_text parse_reset (acc @ [([] @ [f]) @ g # gs]) rest"
    unfolding tail[symmetric] using assms(1) fs by (intro read_fields) simp_all
  finally show ?thesis using fs by simp
qed

lemma read_rows:
  assumes "\<forall>fs\<in>set rows. 2 \<le> length fs \<and> (\<forall>f\<in>set fs. length f \<le> field_size_limit)"
  shows "read_text parse_reset acc (concat (map csv_row rows)) = Inr (acc @ rows)"
  using assms
proof (induction rows arbitrary: acc)
  case Nil
  then show ?case by (simp add: parse_reset_def read_text.simps)
next
  case (Cons fs rows)
  then show ?case by (simp add: read_row)
qed

section \<open>Facts about the store\<close>

lemma read_plain_overflow:
  "plain p \<Longrightarrow> length fld \<le> field_size_limit \<Longrightarrow> field_size_limit < length fld + length p \<Longrightarrow>
   read_text (IN_FIELD, fld, flds) acc (p @ rest) = Inl CsvError"
proof (induction p arbitrary: fld)
  case Nil
  then show ?case by simp
next
  case (Cons c cs)
  from Cons.prems have c: "c \<noteq> COMMA" "c \<noteq> DQUOTE" "c \<noteq> CR" "c \<noteq> LF" and cs: "plain cs"
    by (simp_all add: plain_Cons)
  show ?case
  proof (cases "length fld = field_size_limit")
    case True
    then show ?thesis
      using c by (simp add: read_text.simps is_newline_def parse_add_char_def)
  next
    case False
    with Cons.prems have len: "length fld < field_size_limit" and ne: "cs \<noteq> []"
      by auto
    then obtain d ds where "cs @ rest = d # ds" by (cases cs) auto
    then have le: "line_ends c (cs @ rest) = False"
      using c by (simp add: line_ends_simps)
    have "read_text (IN_FIELD, fld, flds) acc ((c # cs) @ rest)
        = read_text (IN_FIELD, fld @ [c], flds) acc (cs @ rest)"
      using c len le by (simp add: read_text.simps is_newline_def parse_add_char_def)
    also have "\<dots> = Inl CsvError"
      using cs len Cons.prems(3) by (intro Cons.IH) simp_all
    finally show ?thesis .
  qed
qed

lemma COLUMNS_facts:
  "distinct COLUMNS" "length COLUMNS = 15" "list_all (\<lambda>f. length f \<le> field_size_limit) COLUMNS"
  "COLUMNS \<noteq> []"
  by (simp_all add: COLUMNS_def field_size_limit_def)

lemma dict_update_fresh:
  "distinct (map fst kvs) \<Longrightarrow> fst ` set acc \<inter> fst ` set kvs = {} \<Longrightarrow>
   dict_update acc kvs = acc @ kvs"
proof (induction kvs arbitrary: acc)
  case Nil
  then show ?case by (simp add: dict_update_def)
next
  case (Cons kv kvs)
  obtain k v where kv: "kv = (k, v)" by (cases kv)
  from Cons.prems kv have "k \<notin> fst ` set acc" by auto
  then have u: "AList.update k v acc = acc @ [(k, v)]"
    by (induction acc) auto
  have "dict_update acc (kv # kvs) = dict_update (acc @ [(k, v)]) kvs"
    using u kv by (simp add: dict_update_def)
  also have "\<dots> = (acc @ [(k, v)]) @ kvs"
    using Cons.prems kv by (intro Cons.IH) auto
  finally show ?case using kv by simp
qed

lemma dict_of_zip:
  "distinct ks \<Longrightarrow> length vs = length ks \<Longrightarrow> dict_update [] (zip ks vs) = zip ks vs"
  using dict_update_fresh[of "zip ks vs" "[]"] by (simp add: distinct_zipI1 map_fst_zip)

lemma length_stored_values: "length (stored_values r) = 15"
  by (simp add: stored_values_def COLUMNS_facts)

lemma to_dicts_stored:
  "to_dicts COLUMNS (map stored_values records) = Inr (map stored_row records)"
proof (induction records)
  case Nil
  then show ?case by simp
next
  case (Cons r records)
  have "stored_values r \<noteq> []"
    using length_stored_values[of r] by auto
  then show ?case
    using Cons by (simp add: length_stored_values COLUMNS_facts dict_of_zip stored_row_def)
qed

lemma dict_reader_file_text:
  assumes "list_all values_ok records"
  shows "dict_reader (file_text records) = Inr (map stored_row records)"
proof -
  have "\<forall>fs\<in>set (COLUMNS # map stored_values records).
          2 \<le> length fs \<and> (\<forall>f\<in>set fs. length f \<le> field_size_limit)"
    using assms COLUMNS_facts
    by (auto simp: list_all_iff values_ok_def length_stored_values)
  then have "read_text parse_reset [] (concat (map csv_row (COLUMNS # map stored_values records)))
      = Inr ([] @ COLUMNS # map stored_values records)"
    by (rule read_rows)
  then have "csv_reader (file_text records) = Inr (COLUMNS # map stored_values records)"
    by (simp add: csv_reader_def file_text_def comp_def)
  then show ?thesis
    by (simp add: dict_reader_def to_dicts_stored)
qed

text \<open>A line of the file can be encoded when the values of its row can: the writer
  adds commas, quotes and the line terminator only.\<close>

lemma encodable_append [simp]: "encodable (a @ b) = (encodable a \<and> encodable b)"
  by (auto simp: encodable_def)

lemma encodable_Cons [simp]: "encodable (c # cs) = (\<not> is_surrogate c \<and> encodable cs)"
  by (simp add: encodable_def)

lemma encodable_Nil [simp]: "encodable []"
  by (simp add: encodable_def)

lemma specials_encodable:
  "\<not> is_surrogate COMMA" "\<not> is_surrogate DQUOTE" "\<not> is_surrogate CR" "\<not> is_surrogate LF"
  by (simp_all add: is_surrogate_def COMMA_def DQUOTE_def CR_def LF_def)

lemma encodable_double_quotes: "encodable (double_quotes f) = encodable f"
  by (induction f) (simp_all add: double_quotes_def encodable_Cons specials_encodable)

lemma encodable_csv_field: "encodable (csv_field f) = encodable f"
  by (simp add: csv_field_def quoted_def encodable_Cons specials_encodable encodable_double_quotes)

lemma encodable_join:
  "encodable (join_str [COMMA] (map csv_field fs)) = list_all encodable fs"
proof (induction fs rule: induct_list012)
  case 1
  show ?case by simp
next
  case (2 f)
  show ?case by (simp add: encodable_csv_field)
next
  case (3 f g fs)
  then show ?case by (simp add: encodable_csv_field encodable_Cons specials_encodable)
qed

lemma encodable_csv_row: "encodable (csv_row fs) = list_all encodable fs"
  by (auto simp: csv_row_def encodable_join quoted_def double_quotes_def encodable_Cons
      specials_encodable)

lemma of_char_less: "of_char c < (256::nat)"
  by (metis of_char_mod_256 mod_less_divisor zero_less_numeral)

lemma not_surrogate_Chr [simp]: "\<not> is_surrogate (Chr c)"
  unfolding is_surrogate_def code_point.simps using of_char_less[of c] by linarith

lemma encodable_str: "encodable (str s)"
  by (induction s) simp_all

lemma encodable_zero_pad [simp]: "encodable (zero_pad w n)"
  by (induction w arbitrary: n) simp_all

lemma encodable_isoformat [simp]: "encodable (isoformat_utc d)"
  by (simp add: isoformat_utc_def)

lemma encodable_header: "encodable (csv_row COLUMNS)"
  unfolding encodable_csv_row by (simp add: COLUMNS_def)

text \<open>\<open>write_rows\<close> on rows over the stored columns: it writes the rows up to the
  first one with a value that cannot be encoded, and raises at that one.\<close>

lemma write_rows_keys_ok:
  "list_all keys_ok records \<Longrightarrow>
   write_rows text0 records
     = (if list_all encodable_row records then Inr () else Inl UnicodeEncodeError,
        text0 @ concat (map (\<lambda>r. csv_row (stored_values r)) (takeWhile encodable_row records)))"
  by (induction records arbitrary: text0)
    (simp_all add: keys_ok_def dict_to_list_def stored_values_def encodable_row_def
      encodable_csv_row)

lemma write_rows_ok:
  "list_all keys_ok records \<Longrightarrow> list_all encodable_row records \<Longrightarrow>
   write_rows text0 records
     = (Inr (), text0 @ concat (map (\<lambda>r. csv_row (stored_values r)) records))"
  by (simp add: write_rows_keys_ok takeWhile_eq_all_conv[THEN iffD2] list_all_iff)

lemma ensure_data_file_idem [simp]:
  "ensure_data_file (ensure_data_file st) = ensure_data_file st"
  by (simp add: ensure_data_file_def split: option.splits)

lemma ensure_data_file_Some [simp]:
  "data_file st = Some t \<Longrightarrow> ensure_data_file st = st"
  by (simp add: ensure_data_file_def)

lemma data_file_ensure: "data_file (ensure_data_file st) \<noteq> None"
  by (simp add: ensure_data_file_def split: option.splits)

lemma write_records_keys_ok:
  "list_all keys_ok records \<Longrightarrow>
   write_records records st
     = (if list_all encodable_row records then Inr () else Inl UnicodeEncodeError,
        (ensure_data_file st)\<lparr>data_file :=
           Some (file_text (takeWhile encodable_row records))\<rparr>)"
  by (simp add: write_records_def write_rows_keys_ok file_text_def)

lemma write_records_ok:
  "list_all keys_ok records \<Longrightarrow> list_all encodable_row records \<Longrightarrow>
   write_records records st
     = (Inr (), (ensure_data_file st)\<lparr>data_file := Some (file_text records)\<rparr>)"
  by (simp add: write_records_def write_rows_ok file_text_def)

lemma load_records_file_text:
  "data_file st = Some (file_text records) \<Longrightarrow> list_all values_ok records \<Longrightarrow>
   load_records st = (Inr (map stored_row records), st)"
  by (simp add: load_records_def dict_reader_file_text)

lemma load_records_state: "snd (load_records st) = ensure_data_file st"
  by (simp add: load_records_def Let_def)

lemma load_records_ensure: "load_records (ensure_data_file st) = load_records st"
  by (simp add: load_records_def Let_def)

lemma map_of_stored_row:
  "k \<in> set COLUMNS \<Longrightarrow> map_of (stored_row r) k = Some (dict_get r k [])"
proof -
  assume k: "k \<in> set COLUMNS"
  have "map_of (zip COLUMNS (map (\<lambda>k. dict_get r k []) COLUMNS)) k = Some (dict_get r k [])"
    using k COLUMNS_facts(1) by (simp add: map_of_zip_map)
  then show ?thesis by (simp add: stored_row_def stored_values_def)
qed

lemma keys_stored_row: "map fst (stored_row r) = COLUMNS"
  by (simp add: stored_row_def length_stored_values COLUMNS_facts)

section \<open>Facts about updates\<close>

lemma update_rows_first_match:
  assumes "have_ids records"
  shows "update_rows card_id changes seen records
           = (if first_match card_id records < length records
              then Inr (Some (seen @ merged card_id changes records,
                              dict_update (records ! first_match card_id records) changes))
              else Inr None)"
  using assms
proof (induction records arbitrary: seen)
  case Nil
  then show ?case by (simp add: first_match_def)
next
  case (Cons r records)
  from Cons.prems obtain v where v: "map_of r (str ''id'') = Some v" and rest: "have_ids records"
    by (auto simp: have_ids_def)
  show ?case
  proof (cases "v = card_id")
    case True
    with v show ?thesis by (simp add: first_match_def merged_def Let_def)
  next
    case False
    with v have fm: "first_match card_id (r # records) = Suc (first_match card_id records)"
      by (simp add: first_match_def)
    have "update_rows card_id changes seen (r # records)
        = update_rows card_id changes (seen @ [r]) records"
      using v False by simp
    also have "\<dots> = (if first_match card_id records < length records
              then Inr (Some ((seen @ [r]) @ merged card_id changes records,
                              dict_update (records ! first_match card_id records) changes))
              else Inr None)"
      using rest by (rule Cons.IH)
    finally show ?thesis using fm by (simp add: merged_def)
  qed
qed

lemma find_card_first_match:
  assumes "have_ids records"
  shows "find_card card_id records
           = (if first_match card_id records < length records
              then Inr (Some (records ! first_match card_id records))
              else Inr None)"
  using assms
proof (induction records)
  case Nil
  then show ?case by (simp add: first_match_def)
next
  case (Cons r records)
  from Cons.prems obtain v where v: "map_of r (str ''id'') = Some v" and rest: "have_ids records"
    by (auto simp: have_ids_def)
  show ?case
    using v Cons.IH[OF rest] by (cases "v = card_id") (simp_all add: first_match_def)
qed

lemma first_match_absent:
  "(\<forall>r\<in>set records. map_of r (str ''id'') \<noteq> Some card_id)
     \<longleftrightarrow> first_match card_id records = length records"
  by (induction records) (auto simp: first_match_def)

lemma keys_dict_update:
  "fst ` set (dict_update r changes) = fst ` set r \<union> fst ` set changes"
  unfolding dict_update_def
proof (induction changes arbitrary: r)
  case Nil
  then show ?case by simp
next
  case (Cons kv changes)
  obtain k v where "kv = (k, v)" by (cases kv)
  then show ?case using Cons[of "AList.update k v r"] by (auto simp: AList.dom_update)
qed

lemma keys_ok_dict_update:
  "keys_ok r \<Longrightarrow> keys_ok changes \<Longrightarrow> keys_ok (dict_update r changes)"
  using keys_dict_update[of r changes]
  by (auto simp: keys_ok_def list_all_iff)

lemma map_of_dict_update_other:
  "f \<notin> fst ` set changes \<Longrightarrow> map_of (dict_update r changes) f = map_of r f"
  unfolding dict_update_def
proof (induction changes arbitrary: r)
  case Nil
  then show ?case by simp
next
  case (Cons kv changes)
  obtain k v where kv: "kv = (k, v)" by (cases kv)
  with Cons.prems have "f \<noteq> k" "f \<notin> fst ` set changes" by auto
  then show ?case using Cons.IH[of "AList.update k v r"] kv by (simp add: AList.update_conv')
qed

lemma keys_ok_merged:
  assumes "list_all keys_ok records" "keys_ok changes"
  shows "list_all keys_ok (merged card_id changes records)"
proof (cases "first_match card_id records < length records")
  case True
  then have "keys_ok (records ! first_match card_id records)"
    using assms(1) by (simp add: list_all_length)
  then have "keys_ok (dict_update (records ! first_match card_id records) changes)"
    using assms(2) by (rule keys_ok_dict_update)
  then show ?thesis
    using assms(1) unfolding merged_def list_all_iff
    by (metis insert_iff set_update_subset_insert subsetD)
next
  case False
  then have "merged card_id changes records = records"
    by (simp add: merged_def list_update_beyond not_less)
  then show ?thesis using assms(1) by simp
qed

lemma load_records_result:
  "load_records st = (res, st1) \<Longrightarrow> st1 = ensure_data_file st"
  by (auto simp: load_records_def Let_def)

text \<open>\<open>update_record\<close> on a readable store, at an id that is present and with changes
  over the stored columns: the rows are written up to the first one with a value that
  cannot be encoded.\<close>

lemma update_record_written:
  assumes "load_records st = (Inr records, st1)" and "have_ids records"
    and "list_all keys_ok records" and "keys_ok changes"
    and "first_match card_id records < length records"
  shows "update_record card_id changes st
           = (if list_all encodable_row (merged card_id changes records)
              then Inr (dict_update (records ! first_match card_id records) changes)
              else Inl UnicodeEncodeError,
              st1\<lparr>data_file := Some (file_text
                       (takeWhile encodable_row (merged card_id changes records)))\<rparr>)"
proof -
  have st1: "ensure_data_file st1 = st1"
    using load_records_result[OF assms(1)] by simp
  have "write_records (merged card_id changes records) st1
      = (if list_all encodable_row (merged card_id changes records) then Inr ()
         else Inl UnicodeEncodeError,
         st1\<lparr>data_file := Some (file_text
                  (takeWhile encodable_row (merged card_id changes records)))\<rparr>)"
    using keys_ok_merged[OF assms(3,4)] st1 by (simp add: write_records_keys_ok)
  then show ?thesis
    using assms(1,5) update_rows_first_match[OF assms(2), of card_id changes "[]"]
    by (simp add: update_record_def)
qed

lemma update_record_merged:
  assumes "load_records st = (Inr records, st1)" and "have_ids records"
    and "list_all keys_ok records" and "keys_ok changes"
    and "first_match card_id records < length records"
    and "list_all encodable_row (merged card_id changes records)"
  shows "update_record card_id changes st
           = (Inr (dict_update (records ! first_match card_id records) changes),
              st1\<lparr>data_file := Some (file_text (merged card_id changes records))\<rparr>)"
  using update_record_written[OF assms(1-5)] assms(6)
  by (simp add: takeWhile_eq_all_conv[THEN iffD2] list_all_iff)

lemma update_record_absent:
  assumes "load_records st = (Inr records, st1)" and "have_ids records"
    and "first_match card_id records = length records"
  shows "update_record card_id changes st = (Inl (HTTPException 404 (str ''Card not found'')), st1)"
  using assms(1,3) update_rows_first_match[OF assms(2), of card_id changes "[]"]
  by (simp add: update_record_def)

section \<open>Facts about a field over the size limit\<close>

lemma join_str_Cons:
  "join_str sep (x # xs) = x @ (if xs = [] then [] else sep @ join_str sep xs)"
  by (cases xs) simp_all

lemma plain_replicate:
  "c \<noteq> COMMA \<Longrightarrow> c \<noteq> DQUOTE \<Longrightarrow> c \<noteq> CR \<Longrightarrow> c \<noteq> LF \<Longrightarrow> plain (replicate n c)"
  by (induction n) (simp_all add: plain_Cons, simp add: plain_def needs_quotes_def)

lemma read_long_field:
  assumes "plain long" and "field_size_limit < length long"
    and "s0 = START_RECORD \<or> s0 = START_FIELD"
  shows "read_text (s0, [], flds) acc (long @ rest) = Inl CsvError"
proof -
  have pos: "0 < field_size_limit" by (simp add: field_size_limit_def)
  with assms(2) obtain c d cs where long: "long = c # d # cs"
    by (cases long; cases "tl long") auto
  with assms(1) have c: "c \<noteq> COMMA" "c \<noteq> DQUOTE" "c \<noteq> CR" "c \<noteq> LF" and cs: "plain (d # cs)"
    by (simp_all add: plain_Cons)
  have le: "line_ends c ((d # cs) @ rest) = False"
    using c by (simp add: line_ends_simps)
  have "read_text (s0, [], flds) acc (c # (d # cs) @ rest)
      = read_text (IN_FIELD, [c], flds) acc ((d # cs) @ rest)"
    by (subst read_text.simps(2))
      (use assms(3) c le pos in \<open>auto simp: is_newline_def start_field_def parse_add_char_def\<close>)
  then have "read_text (s0, [], flds) acc (long @ rest)
      = read_text (IN_FIELD, [c], flds) acc ((d # cs) @ rest)"
    using long by simp
  also have "\<dots> = Inl CsvError"
    using cs assms(2) long pos by (intro read_plain_overflow) simp_all
  finally show ?thesis .
qed

lemma read_fields_overflow:
  assumes "\<forall>f\<in>set pre. length f \<le> field_size_limit"
    and "plain long" and "field_size_limit < length long"
    and "s0 = START_RECORD \<or> s0 = START_FIELD"
  shows "read_text (s0, [], flds) acc (join_str [COMMA] (map csv_field (pre @ long # post)) @ rest)
           = Inl CsvError"
  using assms(1,4)
proof (induction pre arbitrary: s0 flds)
  case Nil
  have "csv_field long = long"
    using assms(2) by (simp add: csv_field_def plain_def)
  then have "join_str [COMMA] (map csv_field ([] @ long # post)) @ rest
      = long @ ((if post = [] then [] else [COMMA] @ join_str [COMMA] (map csv_field post)) @ rest)"
    by (simp add: join_str_Cons)
  then show ?case
    using read_long_field[OF assms(2,3) Nil.prems(2)] by simp
next
  case (Cons f pre)
  let ?tail = "join_str [COMMA] (map csv_field (pre @ long # post)) @ rest"
  have "long \<noteq> []" using assms(3) by auto
  then have "?tail \<noteq> []"
    using assms(2) by (cases pre) (simp_all add: join_str_Cons csv_field_def plain_def)
  then obtain d ds where tail: "?tail = d # ds" by (cases ?tail) auto
  have "join_str [COMMA] (map csv_field ((f # pre) @ long # post)) @ rest
      = csv_field f @ COMMA # d # ds"
    using tail by (simp add: join_str_Cons)
  then have "read_text (s0, [], flds) acc
        (join_str [COMMA] (map csv_field ((f # pre) @ long # post)) @ rest)
      = read_text (START_FIELD, [], flds @ [f]) acc (d # ds)"
    using Cons.prems by (simp add: read_field_comma)
  also have "\<dots> = Inl CsvError"
    unfolding tail[symmetric] using Cons.prems by (intro Cons.IH) simp_all
  finally show ?case .
qed

lemma dict_reader_overflow:
  assumes "stored_values r = pre @ long # post"
    and "\<forall>f\<in>set pre. length f \<le> field_size_limit"
    and "plain long" and "field_size_limit < length long"
  shows "dict_reader (file_text (r # rs)) = Inl CsvError"
proof -
  let ?rest = "concat (map (\<lambda>r. csv_row (stored_values r)) rs)"
  have ne: "pre @ long # post \<noteq> [[]]"
    using assms(4) by (cases pre) auto
  have "read_text parse_reset [] (csv_row COLUMNS @ (csv_row (stored_values r) @ ?rest))
      = read_text parse_reset ([] @ [COLUMNS]) (csv_row (stored_values r) @ ?rest)"
    using COLUMNS_facts by (intro read_row) (simp_all add: list_all_iff)
  also have "\<dots> = Inl CsvError"
    using read_fields_overflow[OF assms(2-4), of START_RECORD "[]" "[COLUMNS]" post
        "[CR, LF] @ ?rest"]
      assms(1) ne
    by (simp add: csv_row_def parse_reset_def)
  finally show ?thesis
    by (simp add: dict_reader_def csv_reader_def file_text_def)
qed

section \<open>Facts about the image prompt\<close>








lemma image_calls_ensure [simp]: "image_calls (ensure_data_file st) = image_calls st"
  by (simp add: ensure_data_file_def split: option.splits)



section \<open>Facts about the sample values\<close>

lemma sample_records_unfold:
  "sample_record =
     [(str ''id'', str ''id-1''), (str ''first_name'', str ''Ada''), (str ''last_name'', []),
      (str ''company'', str ''Engines, Ltd''), (str ''company_logo_description'', []), (str ''email'', []),
      (str ''phone'', []), (str ''address'', []), (str ''meeting_context'', []), (str ''priorities'', []),
      (str ''personal_notes'', []), (str ''captured_at'', str ''2024-03-09T07:05:00+00:00''),
      (str ''source_image'', str ''id-1_source.jpg''), (str ''summary_image'', []),
      (str ''raw_ocr_json'', str ''{}'')]"
  "other_record =
     [(str ''id'', str ''id-2''), (str ''first_name'', str ''Bob''), (str ''last_name'', []),
      (str ''company'', []), (str ''company_logo_description'', []), (str ''email'', []),
      (str ''phone'', []), (str ''address'', []), (str ''meeting_context'', []), (str ''priorities'', []),
      (str ''personal_notes'', []), (str ''captured_at'', str ''2024-03-09T08:00:00+00:00''),
      (str ''source_image'', str ''id-2_source.jpg''), (str ''summary_image'', []),
      (str ''raw_ocr_json'', str ''{}'')]"
  by (simp_all add: sample_record_def other_record_def new_record_def dict_get_def sample_env_def)

lemma sample_records_stored:
  "stored_row sample_record = sample_record" "stored_row other_record = other_record"
  by (simp_all add: sample_records_unfold stored_row_def stored_values_def COLUMNS_def dict_get_def)

lemma sample_records_ok:
  "values_ok sample_record" "values_ok other_record"
  "keys_ok sample_record" "keys_ok other_record"
  "have_ids [sample_record, other_record]"
  "encodable_row sample_record" "encodable_row other_record"
  by (simp_all add: sample_records_unfold values_ok_def keys_ok_def have_ids_def stored_values_def
      COLUMNS_def dict_get_def field_size_limit_def encodable_row_def)

lemma sample_load:
  "load_records sample_store = (Inr [sample_record, other_record], sample_store)"
  using load_records_file_text[of sample_store "[sample_record, other_record]"]
  by (simp add: sample_store_def sample_records_stored sample_records_ok)

lemma sample_first_match:
  "first_match (str ''id-1'') [sample_record, other_record] = 0"
  "first_match (str ''id-2'') [sample_record, other_record] = 1"
  "first_match (str ''id-9'') [sample_record, other_record] = 2"
  by (simp_all add: first_match_def sample_records_unfold)

lemma sample_merged_record:
  "dict_update sample_record (context_changes sample_context) =
     [(str ''id'', str ''id-1''), (str ''first_name'', str ''Ada''), (str ''last_name'', []),
      (str ''company'', str ''Engines, Ltd''), (str ''company_logo_description'', []), (str ''email'', []),
      (str ''phone'', []), (str ''address'', []), (str ''meeting_context'', str ''Expo''),
      (str ''priorities'', str ''Hiring''), (str ''personal_notes'', str ''Chess''),
      (str ''captured_at'', str ''2024-03-09T07:05:00+00:00''),
      (str ''source_image'', str ''id-1_source.jpg''), (str ''summary_image'', []),
      (str ''raw_ocr_json'', str ''{}'')]"
  by (simp add: sample_records_unfold dict_update_def context_changes_def sample_context_def)


section \<open>Facts about values that the file cannot hold\<close>

lemma long_text_facts:
  "plain long_text" "field_size_limit < length long_text" "encodable long_text"
proof -
  show "plain long_text"
    unfolding long_text_def
    by (intro plain_replicate) (simp_all add: COMMA_def DQUOTE_def CR_def LF_def)
  show "field_size_limit < length long_text"
    by (simp add: long_text_def)
  have "encodable (replicate n (Chr c))" for n c
    by (induction n) simp_all
  then show "encodable long_text"
    by (simp add: long_text_def)
qed

lemma broken_text_surrogate: "\<not> encodable broken_text"
  by (simp add: broken_text_def lone_surrogate_def is_surrogate_def)

lemma file_text_Nil: "file_text [] = csv_row COLUMNS"
  by (simp add: file_text_def)

text \<open>A store whose data file the reader refuses answers every request for a card with
  the reader's error.\<close>

lemma load_records_unreadable:
  "data_file st = Some t \<Longrightarrow> dict_reader t = Inl e \<Longrightarrow> load_records st = (Inl e, st)"
  by (simp add: load_records_def)

lemma get_card_unreadable:
  "data_file st = Some t \<Longrightarrow> dict_reader t = Inl e \<Longrightarrow> get_card card_id st = (Inl e, st)"
  by (simp add: get_card_def load_records_unreadable)

lemma update_record_unreadable:
  "data_file st = Some t \<Longrightarrow> dict_reader t = Inl e \<Longrightarrow>
   update_record card_id changes st = (Inl e, st)"
  by (simp add: update_record_def load_records_unreadable)

lemma save_context_unreadable:
  "data_file st = Some t \<Longrightarrow> dict_reader t = Inl e \<Longrightarrow>
   save_context ev card_id payload st = (Inl e, st)"
  by (simp add: save_context_def update_record_unreadable)

text \<open>The sample record with an overlong note, and with a lone surrogate in its
  priorities.\<close>

lemma long_merged_record:
  "dict_update sample_record (context_changes long_context) =
     [(str ''id'', str ''id-1''), (str ''first_name'', str ''Ada''), (str ''last_name'', []),
      (str ''company'', str ''Engines, Ltd''), (str ''company_logo_description'', []), (str ''email'', []),
      (str ''phone'', []), (str ''address'', []), (str ''meeting_context'', str ''Expo''),
      (str ''priorities'', str ''Hiring''), (str ''personal_notes'', long_text),
      (str ''captured_at'', str ''2024-03-09T07:05:00+00:00''),
      (str ''source_image'', str ''id-1_source.jpg''), (str ''summary_image'', []),
      (str ''raw_ocr_json'', str ''{}'')]"
  by (simp add: sample_records_unfold dict_update_def context_changes_def long_context_def)

lemma long_merged_values:
  "stored_values (dict_update sample_record (context_changes long_context))
     = [str ''id-1'', str ''Ada'', [], str ''Engines, Ltd'', [], [], [], [], str ''Expo'', str ''Hiring'']
       @ long_text # [str ''2024-03-09T07:05:00+00:00'', str ''id-1_source.jpg'', [], str ''{}'']"
  by (simp add: long_merged_record stored_values_def COLUMNS_def dict_get_def)

lemma long_merged_unreadable:
  "dict_reader (file_text (dict_update sample_record (context_changes long_context) # rs))
     = Inl CsvError"
  by (rule dict_reader_overflow[OF long_merged_values _ long_text_facts(1,2)])
    (simp add: field_size_limit_def)

lemma context_changes_keys_ok: "keys_ok (context_changes payload)"
  by (simp add: keys_ok_def COLUMNS_def context_changes_def)

lemma long_context_update:
  "update_record (str ''id-1'') (context_changes long_context) sample_store
     = (Inr (dict_update sample_record (context_changes long_context)),
        sample_store\<lparr>data_file :=
          Some (file_text [dict_update sample_record (context_changes long_context),
                           other_record])\<rparr>)"
proof -
  have "encodable_row (dict_update sample_record (context_changes long_context))"
    unfolding encodable_row_def long_merged_values by (simp add: long_text_facts)
  then show ?thesis
    using update_record_merged[OF sample_load sample_records_ok(5) _ context_changes_keys_ok,
        of "str ''id-1''" long_context]
    by (simp add: sample_records_ok sample_first_match[simplified] merged_def)
qed

lemma overlong_store_file:
  "data_file overlong_store
     = Some (file_text [dict_update sample_record (context_changes long_context), other_record])"
proof -
  let ?st1 = "sample_store\<lparr>data_file :=
          Some (file_text [dict_update sample_record (context_changes long_context),
                           other_record])\<rparr>"
  have "update_record (str ''id-1'') changes
      (snd (save_image image_bytes name
         (?st1\<lparr>image_calls := image_calls ?st1 @ [call]\<rparr>)))
      = (Inl CsvError, snd (save_image image_bytes name
         (?st1\<lparr>image_calls := image_calls ?st1 @ [call]\<rparr>)))" for changes image_bytes name call
    by (rule update_record_unreadable[OF _ long_merged_unreadable]) (simp add: save_image_def)
  then show ?thesis
    unfolding overlong_store_def save_context_def long_context_update
    by (simp add: Let_def sample_env_def save_image_def split: prod.splits)
qed

lemma broken_merged_record:
  "dict_update sample_record (context_changes broken_context) =
     [(str ''id'', str ''id-1''), (str ''first_name'', str ''Ada''), (str ''last_name'', []),
      (str ''company'', str ''Engines, Ltd''), (str ''company_logo_description'', []), (str ''email'', []),
      (str ''phone'', []), (str ''address'', []), (str ''meeting_context'', str ''Expo''),
      (str ''priorities'', broken_text), (str ''personal_notes'', str ''Chess''),
      (str ''captured_at'', str ''2024-03-09T07:05:00+00:00''),
      (str ''source_image'', str ''id-1_source.jpg''), (str ''summary_image'', []),
      (str ''raw_ocr_json'', str ''{}'')]"
  by (simp add: sample_records_unfold dict_update_def context_changes_def broken_context_def)

lemma broken_merged_row:
  "\<not> encodable_row (dict_update sample_record (context_changes broken_context))"
  by (simp add: broken_merged_record encodable_row_def stored_values_def COLUMNS_def dict_get_def
      broken_text_surrogate)

lemma broken_context_update:
  "update_record (str ''id-1'') (context_changes broken_context) sample_store
     = (Inl UnicodeEncodeError, sample_store\<lparr>data_file := Some (csv_row COLUMNS)\<rparr>)"
  using update_record_written[OF sample_load sample_records_ok(5) _ context_changes_keys_ok,
      of "str ''id-1''" broken_context] broken_merged_row
  by (simp add: sample_records_ok sample_first_match[simplified] merged_def file_text_Nil)

lemma header_only_store:
  "load_records (sample_store\<lparr>data_file := Some (csv_row COLUMNS)\<rparr>)
     = (Inr [], sample_store\<lparr>data_file := Some (csv_row COLUMNS)\<rparr>)"
  using load_records_file_text[of "sample_store\<lparr>data_file := Some (csv_row COLUMNS)\<rparr>" "[]"]
  by (simp add: file_text_Nil)

section \<open>Facts about uploads\<close>

lemma write_rows_result:
  "write_rows text0 records = (Inr u, text1) \<Longrightarrow>
   text1 = text0 @ concat (map (\<lambda>r. csv_row (stored_values r)) records)"
proof (induction records arbitrary: text0)
  case Nil
  then show ?case by simp
next
  case (Cons r records)
  from Cons.prems have k: "list_all (\<lambda>k. k \<in> set COLUMNS) (map fst r)"
    by (auto simp: dict_to_list_def split: if_splits)
  with Cons.prems have "write_rows (text0 @ csv_row (stored_values r)) records = (Inr u, text1)"
    by (simp add: dict_to_list_def stored_values_def split: if_splits)
  then have "text1 = (text0 @ csv_row (stored_values r))
      @ concat (map (\<lambda>r. csv_row (stored_values r)) records)"
    by (rule Cons.IH)
  then show ?case by simp
qed

lemma write_records_result:
  assumes "write_records records st = (Inr u, st')"
  shows "st' = (ensure_data_file st)\<lparr>data_file := Some (file_text records)\<rparr>"
proof -
  obtain res text1 where w: "write_rows (csv_row COLUMNS) records = (res, text1)"
    by (cases "write_rows (csv_row COLUMNS) records")
  with assms have "res = Inr u" and st': "st' = (ensure_data_file st)\<lparr>data_file := Some text1\<rparr>"
    by (simp_all add: write_records_def)
  with w have "text1 = file_text records"
    using write_rows_result[of "csv_row COLUMNS" records u text1] by (simp add: file_text_def)
  with st' show ?thesis by simp
qed

lemma load_records_frame:
  "data_file st2 = data_file st \<Longrightarrow> fst (load_records st2) = fst (load_records st)"
  by (simp add: load_records_def Let_def ensure_data_file_def split: option.splits)

lemma chat_calls_ensure [simp]: "chat_calls (ensure_data_file st) = chat_calls st"
  by (simp add: ensure_data_file_def split: option.splits)

lemma extract_card_details_state:
  "snd (extract_card_details ev image_bytes ctype st)
     = st\<lparr>chat_calls := chat_calls st @ [extraction_request ev image_bytes ctype]\<rparr>"
  by (simp add: extract_card_details_def Let_def split: sum.splits option.splits)

lemma new_record_fields:
  "map_of (new_record ev card_id extracted capture_time name) (str ''id'') = Some card_id"
  "map_of (new_record ev card_id extracted capture_time name) (str ''meeting_context'') = Some []"
  "map_of (new_record ev card_id extracted capture_time name) (str ''priorities'') = Some []"
  "map_of (new_record ev card_id extracted capture_time name) (str ''personal_notes'') = Some []"
  "map_of (new_record ev card_id extracted capture_time name) (str ''summary_image'') = Some []"
  by (simp_all add: new_record_def)

lemma new_record_extracted:
  assumes "k \<in> set extraction_keys"
  shows "map_of (new_record ev card_id extracted capture_time name) k
           = Some (dict_get extracted k [])"
proof -
  from assms consider "k = str ''first_name''" | "k = str ''last_name''" | "k = str ''company''"
    | "k = str ''company_logo_description''" | "k = str ''email''" | "k = str ''phone''" | "k = str ''address''"
    unfolding extraction_keys_def by fastforce
  then show ?thesis
    by cases (simp_all add: new_record_def)
qed

lemma upload_card_success:
  assumes "upload_card ev now card_id file st = (Inr resp, st')"
  shows "\<exists>f extracted capture_time name records.
           file = Some f \<and> upload_content f \<noteq> []
         \<and> fst (extract_card_details ev (upload_content f) (upload_content_type f) st) = Inr extracted
         \<and> fst (load_records st) = Inr records
         \<and> data_file st' = Some (file_text (records @ [new_record ev card_id extracted capture_time name]))
         \<and> resp = serialize_record (new_record ev card_id extracted capture_time name)"
proof -
  from assms obtain f where f: "file = Some f" "upload_content f \<noteq> []"
    by (auto simp: upload_card_def Let_def split: option.splits if_splits)
  obtain capture_time where t:
    "extract_capture_datetime (env_tags ev) (env_strptime ev) (env_getexif ev) now (upload_content f)
       = Inr capture_time"
    using extract_capture_datetime_Inr[of "env_tags ev" "env_strptime ev" "env_getexif ev" now
        "upload_content f"] by auto
  obtain xres st1 where x: "extract_card_details ev (upload_content f) (upload_content_type f) st
      = (xres, st1)"
    by (cases "extract_card_details ev (upload_content f) (upload_content_type f) st")
  then have st1: "st1 = st\<lparr>chat_calls := chat_calls st
      @ [extraction_request ev (upload_content f) (upload_content_type f)]\<rparr>"
    using extract_card_details_state[of ev "upload_content f" "upload_content_type f" st] by simp
  from assms f t x obtain extracted where e: "xres = Inr extracted"
    by (cases xres) (auto simp: upload_card_def Let_def)
  let ?ext = "or_default (Some (env_path_suffix ev (or_default (upload_filename f) (str ''card.png'')))) (str ''.png'')"
  let ?name = "path_name (card_id @ str ''_source'' @ ?ext)"
  let ?st2 = "st1\<lparr>images := AList.update (card_id @ str ''_source'' @ ?ext) (upload_content f) (images st1)\<rparr>"
  let ?r = "new_record ev card_id extracted capture_time ?name"
  obtain lres st3 where l: "load_records ?st2 = (lres, st3)"
    by (cases "load_records ?st2")
  from assms f t x e l obtain records where r: "lres = Inr records"
    by (cases lres) (auto simp: upload_card_def Let_def save_image_def)
  obtain wres st4 where w: "write_records (records @ [?r]) st3 = (wres, st4)"
    by (cases "write_records (records @ [?r]) st3")
  from assms f t x e l r w have "wres = Inr ()" and st4: "st4 = st'"
    and resp: "resp = serialize_record ?r"
    by (cases wres; auto simp: upload_card_def Let_def save_image_def)+
  with w have "st' = (ensure_data_file st3)\<lparr>data_file := Some (file_text (records @ [?r]))\<rparr>"
    using write_records_result by blast
  then have d: "data_file st' = Some (file_text (records @ [?r]))" by simp
  have "data_file ?st2 = data_file st"
    by (simp add: st1)
  then have "fst (load_records ?st2) = fst (load_records st)"
    by (rule load_records_frame)
  with l r have lr: "fst (load_records st) = Inr records" by simp
  from f x e lr d resp show ?thesis by auto
qed

lemma chat_calls_load_records: "chat_calls (snd (load_records st)) = chat_calls st"
  by (simp add: load_records_def Let_def)

lemma chat_calls_write_records: "chat_calls (snd (write_records records st)) = chat_calls st"
  by (simp add: write_records_def Let_def split: prod.splits)

lemma upload_card_chat_calls:
  assumes "upload_content f \<noteq> []"
  shows "chat_calls (snd (upload_card ev now card_id (Some f) st))
           = chat_calls st @ [extraction_request ev (upload_content f) (upload_content_type f)]"
proof -
  obtain capture_time where t:
    "extract_capture_datetime (env_tags ev) (env_strptime ev) (env_getexif ev) now (upload_content f)
       = Inr capture_time"
    using extract_capture_datetime_Inr[of "env_tags ev" "env_strptime ev" "env_getexif ev" now
        "upload_content f"] by auto
  obtain xres st1 where x: "extract_card_details ev (upload_content f) (upload_content_type f) st
      = (xres, st1)"
    by (cases "extract_card_details ev (upload_content f) (upload_content_type f) st")
  then have c1: "chat_calls st1
      = chat_calls st @ [extraction_request ev (upload_content f) (upload_content_type f)]"
    using extract_card_details_state[of ev "upload_content f" "upload_content_type f" st] by simp
  show ?thesis
  proof (cases xres)
    case (Inl e)
    with assms t x c1 show ?thesis by (simp add: upload_card_def Let_def)
  next
    case (Inr extracted)
    let ?ext = "or_default (Some (env_path_suffix ev (or_default (upload_filename f) (str ''card.png'')))) (str ''.png'')"
    let ?st2 = "st1\<lparr>images := AList.update (card_id @ str ''_source'' @ ?ext) (upload_content f) (images st1)\<rparr>"
    let ?r = "new_record ev card_id extracted capture_time (path_name (card_id @ str ''_source'' @ ?ext))"
    obtain lres st3 where l: "load_records ?st2 = (lres, st3)"
      by (cases "load_records ?st2")
    then have c3: "chat_calls st3 = chat_calls st1"
      using chat_calls_load_records[of ?st2] by simp
    show ?thesis
    proof (cases lres)
      case (Inl e)
      with assms t x c1 c3 l \<open>xres = Inr extracted\<close> show ?thesis
        by (simp add: upload_card_def Let_def save_image_def)
    next
      case records: (Inr records)
      obtain wres st4 where w: "write_records (records @ [?r]) st3 = (wres, st4)"
        by (cases "write_records (records @ [?r]) st3")
      then have c4: "chat_calls st4 = chat_calls st3"
        using chat_calls_write_records[of "records @ [?r]" st3] by simp
      from assms t x c1 c3 c4 l w records \<open>xres = Inr extracted\<close> show ?thesis
        by (cases wres) (simp_all add: upload_card_def Let_def save_image_def)
    qed
  qed
qed

lemma load_records_fresh:
  assumes "data_file st = None"
  shows "load_records st = (Inr [], st\<lparr>data_file := Some (csv_row COLUMNS)\<rparr>)"
  using assms dict_reader_file_text[of "[]"]
  by (simp add: load_records_def Let_def ensure_data_file_def file_text_def)

lemma sample_upload_result:
  "upload_card sample_env sample_now (str ''id-1'') (Some sample_upload) empty_store
     = (Inr (serialize_record
               (new_record sample_env (str ''id-1'')
                  [(str ''first_name'', str ''Ada''), (str ''company'', str ''Engines, Ltd'')]
                  (isoformat_utc sample_now) (str ''id-1_source.jpg''))),
        \<lparr>data_file = Some (file_text
             [new_record sample_env (str ''id-1'')
                [(str ''first_name'', str ''Ada''), (str ''company'', str ''Engines, Ltd'')]
                (isoformat_utc sample_now) (str ''id-1_source.jpg'')]),
         images = [(str ''id-1_source.jpg'', ''IMG'')],
         chat_calls = [extraction_request sample_env ''IMG'' None],
         image_calls = []\<rparr>)"
proof -
  let ?r = "new_record sample_env (str ''id-1'')
                [(str ''first_name'', str ''Ada''), (str ''company'', str ''Engines, Ltd'')]
                (isoformat_utc sample_now) (str ''id-1_source.jpg'')"
  let ?st2 = "\<lparr>data_file = None, images = [(str ''id-1_source.jpg'', ''IMG'')],
         chat_calls = [extraction_request sample_env ''IMG'' None], image_calls = []\<rparr>"
  have t: "extract_capture_datetime (env_tags sample_env) (env_strptime sample_env)
      (env_getexif sample_env) sample_now ''IMG'' = Inr (isoformat_utc sample_now)"
    by (simp add: extract_capture_datetime_def read_exif_time_def sample_env_def)
  have x: "extract_card_details sample_env ''IMG'' None empty_store
      = (Inr [(str ''first_name'', str ''Ada''), (str ''company'', str ''Engines, Ltd'')],
         empty_store\<lparr>chat_calls := [extraction_request sample_env ''IMG'' None]\<rparr>)"
    by (simp add: extract_card_details_def Let_def parse_json_blob_def sample_env_def
        empty_store_def)
  have n: "path_name (str ''id-1_source.jpg'') = str ''id-1_source.jpg''"
    by (simp add: path_name_def)
  have l: "load_records ?st2 = (Inr [], ?st2\<lparr>data_file := Some (csv_row COLUMNS)\<rparr>)"
    by (rule load_records_fresh) simp
  have "keys_ok ?r"
    by (simp add: new_record_def keys_ok_def COLUMNS_def)
  moreover have "encodable_row ?r"
    by (simp add: new_record_def encodable_row_def stored_values_def COLUMNS_def dict_get_def
        sample_env_def)
  ultimately have w: "write_records ([] @ [?r]) (?st2\<lparr>data_file := Some (csv_row COLUMNS)\<rparr>)
      = (Inr (), ?st2\<lparr>data_file := Some (file_text [?r])\<rparr>)"
    by (simp add: write_records_ok)
  have e: "or_default (Some (env_path_suffix sample_env (or_default (Some (str ''card.jpg'')) (str ''card.png''))))
      (str ''.png'') = str ''.jpg''"
    by (simp add: or_default_def sample_env_def)
  show ?thesis
    unfolding upload_card_def
    using t x n l w e
    by (simp add: sample_upload_def Let_def save_image_def empty_store_def)
qed

section \<open>The claims\<close>

subsection \<open>C1: the extraction parser\<close>

text \<open>
  C1 (amended). Let the object text run from an opening to a closing brace. Whenever the
  text is: any prose, a code fence, a header without an opening brace (nothing, \<open>json\<close>,
  \<open>json\<close> and a newline, blanks), the object text, a trailer without a closing brace, a
  closing fence, and anything after it, where no further code fence occurs from the
  header to the trailer nor in the prose with the header put after it (single and
  double backticks are allowed everywhere, also next to a fence), \<open>parse_json_blob\<close>
  hands exactly the object text to the decoder and returns what the decoder returns.
  And whenever a text has no code fence and is the object text between a head without
  an opening brace and a tail without a closing brace, the decoder is handed exactly
  the object text again.
\<close>

theorem parse_json_blob_recovers:
  assumes "body = Chr (CHR ''{'') # mid @ [Chr (CHR ''}'')]"
  shows "(\<not> contains fence (pre @ hdr) \<and> \<not> contains fence (hdr @ body @ trail)
          \<and> Chr (CHR ''{'') \<notin> set hdr \<and> Chr (CHR ''}'') \<notin> set trail
          \<longrightarrow> parse_json_blob json_loads (pre @ fence @ hdr @ body @ trail @ fence @ post)
                = json_loads body)
       \<and> (\<not> contains fence (h @ body @ t)
          \<and> Chr (CHR ''{'') \<notin> set h \<and> Chr (CHR ''}'') \<notin> set t
          \<longrightarrow> parse_json_blob json_loads (h @ body @ t) = json_loads body)"
proof (intro conjI impI)
  let ?x = "Chr (CHR 0x60)"
  assume a: "\<not> contains fence (pre @ hdr) \<and> \<not> contains fence (hdr @ body @ trail)
          \<and> Chr (CHR ''{'') \<notin> set hdr \<and> Chr (CHR ''}'') \<notin> set trail"
  have b: "body = Chr (CHR ''{'') # (mid @ [Chr (CHR ''}'')])" "Chr (CHR ''{'') \<noteq> ?x"
    "last body \<noteq> ?x"
    using assms by simp_all
  from a have "\<not> contains fence (pre @ hdr)" and "\<not> contains fence (hdr @ body @ trail)"
    by simp_all
  from defence_fenced[OF this b, of post]
  obtain h' t' where d: "set h' \<subseteq> insert ?x (set hdr)" "set t' \<subseteq> set trail"
    "defence (pre @ fence @ hdr @ body @ trail @ fence @ post)
      = (if prefix (str ''json'') (h' @ body @ t') then drop 4 (h' @ body @ t')
         else h' @ body @ t')"
    by blast
  have hb: "Chr (CHR ''{'') \<notin> set h'"
    using a d(1) by auto
  have tb: "Chr (CHR ''}'') \<notin> set t'"
    using a d(2) by auto
  have "h' @ body @ t' = h' @ Chr (CHR ''{'') # mid @ Chr (CHR ''}'') # t'"
    using assms by simp
  with d(3) brace_slice_cleaned[OF hb tb, of mid]
  have "json_blob_text (pre @ fence @ hdr @ body @ trail @ fence @ post) = body"
    using assms by (simp only: json_blob_text_def)
  then show "parse_json_blob json_loads (pre @ fence @ hdr @ body @ trail @ fence @ post)
           = json_loads body"
    by (simp add: parse_json_blob_def)
next
  assume a: "\<not> contains fence (h @ body @ t)
          \<and> Chr (CHR ''{'') \<notin> set h \<and> Chr (CHR ''}'') \<notin> set t"
  have s: "strip (h @ body @ t) = lstrip h @ Chr (CHR ''{'') # mid @ Chr (CHR ''}'') # rstrip t"
    using strip_between[OF brace_not_space, of h mid t] assms by simp
  have hb: "Chr (CHR ''{'') \<notin> set (lstrip h)"
    using a set_lstrip[of h] by auto
  have tb: "Chr (CHR ''}'') \<notin> set (rstrip t)"
    using a set_rstrip[of t] by auto
  from a have "\<not> contains fence (h @ body @ t)" by simp
  from defence_unfenced[OF this] s brace_slice_cleaned[OF hb tb, of mid]
  have "json_blob_text (h @ body @ t) = body"
    using assms by (simp only: json_blob_text_def)
  then show "parse_json_blob json_loads (h @ body @ t) = json_loads body"
    by (simp add: parse_json_blob_def)
qed

text \<open>The theorem at a fenced answer with the \<open>json\<close> tag, at an answer in fences
  of four backticks after prose with inline backticks, and at an object wrapped in
  prose without fences.\<close>

theorem parse_json_blob_recovers_witness:
  \<open>parse_json_blob Inr (fence @ str ''json\<newline>{"name": "Ada"}\<newline>'' @ fence)
     = (Inr (str ''{"name": "Ada"}'') :: unit + ustring)
   \<and> parse_json_blob Inr
       (str ''The '' @ [Chr (CHR 0x60)] @ str ''name'' @ [Chr (CHR 0x60)] @ str '': '' @ fence
          @ [Chr (CHR 0x60)] @ str ''json {"name": "Ada"} '' @ [Chr (CHR 0x60)] @ fence
          @ str '' done'')
     = (Inr (str ''{"name": "Ada"}'') :: unit + ustring)
   \<and> parse_json_blob Inr (str ''Found: {"name": "Ada"}. '')
     = (Inr (str ''{"name": "Ada"}'') :: unit + ustring)\<close>
  using parse_json_blob_recovers[where body = \<open>str ''{"name": "Ada"}''\<close>
      and mid = \<open>str ''"name": "Ada"''\<close>
      and pre = "[]" and hdr = "str ''json\<newline>''" and trail = "str ''\<newline>''" and post = "[]"
      and h = "str ''Found: ''" and t = "str ''. ''"
      and json_loads = "Inr :: ustring \<Rightarrow> unit + ustring"]
    parse_json_blob_recovers[where body = \<open>str ''{"name": "Ada"}''\<close>
      and mid = \<open>str ''"name": "Ada"''\<close>
      and pre = "str ''The '' @ [Chr (CHR 0x60)] @ str ''name'' @ [Chr (CHR 0x60)] @ str '': ''"
      and hdr = "[Chr (CHR 0x60)] @ str ''json ''" and trail = "str '' '' @ [Chr (CHR 0x60)]"
      and post = "str '' done''"
      and h = "[]" and t = "[]"
      and json_loads = "Inr :: ustring \<Rightarrow> unit + ustring"]
  by (simp add: contains_def fence_def)

text \<open>
  C1 as stated fails in two ways. When the fenced object itself contains a code fence
  (here inside a string value), the text is cut at the inner fence, no closing brace is
  left, and the decoder is handed the truncated text \<open>{"a":"\<close>, not the enclosed
  object. And the slice from the first opening to the last closing brace is not the
  first top-level object when the text holds two objects: the decoder is handed both,
  with the text between them.
\<close>

theorem parse_json_blob_not_the_object:
  \<open>json_blob_text (fence @ str ''json{"a":"'' @ fence @ str ''"}'' @ fence) = str ''{"a":"''
   \<and> json_blob_text (str ''{"a": 1} {"b": 2}'') = str ''{"a": 1} {"b": 2}''
   \<and> json_blob_text (str ''{"a": 1} {"b": 2}'') \<noteq> str ''{"a": 1}''\<close>
  by (simp add: json_blob_text_def defence_def brace_slice_def strip_def lstrip_def rstrip_def
      contains_def fence_def split_str.simps rfind_sub_def slice_def is_space_def)

subsection \<open>C2: the round trip through the data file\<close>

text \<open>
  C2 (amended). For every list of records whose keys are stored columns and whose
  values are no longer than the field size limit of the CSV reader (131072 characters)
  and have no lone surrogate, \<open>write_records\<close> succeeds and \<open>load_records\<close> then returns, in the same order, one
  record per record written, with every field of the written record at the same value
  (and the empty string for a column the written record lacks); a record over exactly
  the stored column set is read back as the same mapping. \<open>list_cards\<close> serialises the
  records that are read back.
\<close>

theorem write_then_load:
  assumes "list_all keys_ok records" and "list_all values_ok records"
    and "list_all encodable_row records"
    and "st' = (ensure_data_file st)\<lparr>data_file := Some (file_text records)\<rparr>"
  shows "write_records records st = (Inr (), st')
       \<and> load_records st' = (Inr (map stored_row records), st')
       \<and> list_cards st' = (Inr (map (\<lambda>r. serialize_record (stored_row r)) records), st')
       \<and> (\<forall>r\<in>set records. \<forall>k v. map_of r k = Some v \<longrightarrow> map_of (stored_row r) k = Some v)
       \<and> (\<forall>r\<in>set records. \<forall>k\<in>set COLUMNS. map_of r k = None \<longrightarrow> map_of (stored_row r) k = Some [])
       \<and> (\<forall>r\<in>set records. set (map fst r) = set COLUMNS \<longrightarrow> map_of (stored_row r) = map_of r)"
proof -
  have a: "write_records records st = (Inr (), st')"
    using assms(1,3,4) by (simp add: write_records_ok)
  have b: "load_records st' = (Inr (map stored_row records), st')"
    using assms(2,4) by (intro load_records_file_text) simp_all
  then have c: "list_cards st' = (Inr (map (\<lambda>r. serialize_record (stored_row r)) records), st')"
    by (simp add: list_cards_def comp_def)
  have d: "map_of (stored_row r) k = Some v"
    if "r \<in> set records" and "map_of r k = Some v" for r k v
  proof -
    from that(2) have "k \<in> fst ` set r"
      by (metis domI dom_map_of_conv_image_fst)
    moreover have "keys_ok r"
      using assms(1) that(1) by (simp add: list_all_iff)
    ultimately have "k \<in> set COLUMNS"
      by (auto simp: keys_ok_def list_all_iff)
    then show ?thesis
      using that(2) by (simp add: map_of_stored_row dict_get_def)
  qed
  have e: "map_of (stored_row r) k = Some []"
    if "k \<in> set COLUMNS" and "map_of r k = None" for r k
    using that by (simp add: map_of_stored_row dict_get_def)
  have f: "map_of (stored_row r) = map_of r"
    if "r \<in> set records" and "set (map fst r) = set COLUMNS" for r
  proof
    fix k
    show "map_of (stored_row r) k = map_of r k"
    proof (cases "map_of r k")
      case None
      then have "k \<notin> set COLUMNS"
        using that(2) by (metis map_of_eq_None_iff set_map)
      then have "k \<notin> fst ` set (stored_row r)"
        using keys_stored_row[of r] by (metis set_map)
      then have "map_of (stored_row r) k = None"
        by (simp add: map_of_eq_None_iff)
      with None show ?thesis by simp
    next
      case (Some v)
      with d[OF that(1)] show ?thesis by simp
    qed
  qed
  from a b c d e f show ?thesis by blast
qed

text \<open>The theorem at the two sample records, written to an empty store.\<close>

theorem write_then_load_witness:
  "write_records [sample_record, other_record] empty_store = (Inr (), sample_store)
   \<and> load_records sample_store = (Inr [sample_record, other_record], sample_store)
   \<and> map_of (stored_row sample_record) = map_of sample_record"
  using write_then_load[of "[sample_record, other_record]" sample_store empty_store]
  by (simp add: sample_records_ok sample_records_stored sample_store_def empty_store_def
      ensure_data_file_def)

text \<open>
  C2 as stated fails in two ways. For a value longer than the field size limit of the
  CSV reader the record is written, and reading the file back raises the reader's
  error: here the personal notes of the sample record are a text of 131073 characters.
  For a value with a lone surrogate, which \<open>json.loads\<close> can return in an extraction
  result, the write itself raises \<open>UnicodeEncodeError\<close>, after the file has been
  emptied and the header written: here the first name of the sample record is the
  letter \<open>A\<close> followed by \<open>U+D83D\<close>.
\<close>

theorem written_value_not_read_back:
  "fst (write_records [dict_update sample_record [(str ''personal_notes'', long_text)]] empty_store)
     = Inr ()
   \<and> fst (load_records (snd (write_records
             [dict_update sample_record [(str ''personal_notes'', long_text)]] empty_store)))
     = Inl CsvError
   \<and> write_records [dict_update sample_record [(str ''first_name'', broken_text)]] empty_store
     = (Inl UnicodeEncodeError, empty_store\<lparr>data_file := Some (csv_row COLUMNS)\<rparr>)"
proof -
  let ?r = "dict_update sample_record [(str ''personal_notes'', long_text)]"
  let ?b = "dict_update sample_record [(str ''first_name'', broken_text)]"
  have k: "list_all keys_ok [?r]"
    by (simp add: sample_records_unfold dict_update_def keys_ok_def COLUMNS_def)
  have v: "stored_values ?r
      = [str ''id-1'', str ''Ada'', [], str ''Engines, Ltd'', [], [], [], [], [], []]
        @ long_text # [str ''2024-03-09T07:05:00+00:00'', str ''id-1_source.jpg'', [], str ''{}'']"
    by (simp add: sample_records_unfold dict_update_def stored_values_def COLUMNS_def dict_get_def)
  have "encodable_row ?r"
    unfolding encodable_row_def v by (simp add: long_text_facts)
  then have e: "list_all encodable_row [?r]"
    by simp
  have "dict_reader (file_text [?r]) = Inl CsvError"
    by (rule dict_reader_overflow[OF v _ long_text_facts(1,2)]) (simp add: field_size_limit_def)
  then have a: "fst (write_records [?r] empty_store) = Inr ()
      \<and> fst (load_records (snd (write_records [?r] empty_store))) = Inl CsvError"
    using k e by (simp add: write_records_ok load_records_def Let_def)
  have kb: "list_all keys_ok [?b]"
    by (simp add: sample_records_unfold dict_update_def keys_ok_def COLUMNS_def)
  have nb: "\<not> encodable_row ?b"
    by (simp add: sample_records_unfold dict_update_def encodable_row_def stored_values_def
        COLUMNS_def dict_get_def broken_text_surrogate)
  have "write_records [?b] empty_store
      = (Inl UnicodeEncodeError, empty_store\<lparr>data_file := Some (csv_row COLUMNS)\<rparr>)"
    unfolding write_records_keys_ok[OF kb]
    using nb by (simp add: file_text_Nil ensure_data_file_def empty_store_def)
  with a show ?thesis by (simp only: simp_thms)
qed

subsection \<open>C3: the capture time\<close>

text \<open>
  C3. The loop of \<open>extract_capture_datetime\<close> names the three tags \<open>DateTimeOriginal\<close>,
  \<open>DateTimeDigitized\<close> and \<open>DateTime\<close>, but it runs over \<open>exif_data.items()\<close>, the
  first directory of the EXIF data only, and the first two tags are kept in the Exif
  directory. So for the picture of a camera, whose capture time is the
  \<open>DateTimeOriginal\<close> of the Exif directory, the function returns the clock, although
  the tag is present and its value is parsed by \<open>strptime\<close>. A \<open>DateTime\<close> entry of the
  first directory is found: the function returns its time in ISO format, stamped as
  UTC, and an entry with another tag before it is passed over even when its value could
  be parsed.
\<close>

theorem extract_capture_datetime_misses_exif_ifd:
  "extract_capture_datetime sample_tags sample_strptime (\<lambda>b. Inr camera_exif) sample_now ''JPEG''
     = Inr (str ''2024-03-09T07:05:00+00:00'')
   \<and> exif_ifd camera_exif = [(36867, ExifText (str ''2020:01:02 03:04:05''))]
   \<and> sample_tags 36867 = Some (str ''DateTimeOriginal'')
   \<and> usable_tag sample_tags sample_strptime (36867, ExifText (str ''2020:01:02 03:04:05''))
   \<and> parse_exif_time sample_strptime (ExifText (str ''2020:01:02 03:04:05'')) = Some sample_taken
   \<and> isoformat_utc sample_taken = str ''2020-01-02T03:04:05+00:00''
   \<and> isoformat_utc sample_now = str ''2024-03-09T07:05:00+00:00''
   \<and> extract_capture_datetime sample_tags sample_strptime (\<lambda>b. Inr scanner_exif) sample_now ''JPEG''
     = Inr (str ''2020-01-02T03:04:05+00:00'')"
proof -
  have a: "extract_capture_datetime sample_tags sample_strptime (\<lambda>b. Inr camera_exif) sample_now
      ''JPEG'' = Inr (isoformat_utc sample_now)"
    by (simp add: extract_capture_datetime_def read_exif_time_def camera_exif_def sample_tags_def
        is_datetime_tag_def datetime_tags_def)
  have b: "extract_capture_datetime sample_tags sample_strptime (\<lambda>b. Inr scanner_exif) sample_now
      ''JPEG'' = Inr (isoformat_utc sample_taken)"
    by (simp add: extract_capture_datetime_def read_exif_time_def scanner_exif_def sample_tags_def
        is_datetime_tag_def datetime_tags_def parse_exif_time_def sample_strptime_def)
  have c: "usable_tag sample_tags sample_strptime (36867, ExifText (str ''2020:01:02 03:04:05''))"
    by (simp add: usable_tag_def sample_tags_def is_datetime_tag_def datetime_tags_def
        parse_exif_time_def sample_strptime_def)
  have d: "parse_exif_time sample_strptime (ExifText (str ''2020:01:02 03:04:05'')) = Some sample_taken"
    by (simp add: parse_exif_time_def sample_strptime_def)
  have e: "exif_ifd camera_exif = [(36867, ExifText (str ''2020:01:02 03:04:05''))]"
    "sample_tags 36867 = Some (str ''DateTimeOriginal'')"
    by (simp_all add: camera_exif_def sample_tags_def)
  from a b c d e show ?thesis
    by (simp only: sample_isoformat simp_thms)
qed

subsection \<open>C4: the extraction request and its defaults\<close>

text \<open>
  C4 (amended). For an upload with content, \<open>upload_card\<close> sends one request to the
  chat service: the response format is \<open>json_object\<close>, and the system prompt asks for
  the seven keys \<open>first_name\<close>, \<open>last_name\<close>, \<open>company\<close>, \<open>company_logo_description\<close>,
  \<open>email\<close>, \<open>phone\<close> and \<open>address\<close>. When the upload succeeds, the data file is
  rewritten from the records read before and the new record at the end, and each of the
  seven keys has in the new record the value of the extraction result, or the empty
  string when the result lacks the key.
\<close>

theorem upload_card_extraction:
  assumes "upload_content f \<noteq> []"
  shows "chat_calls (snd (upload_card ev now card_id (Some f) st))
           = chat_calls st @ [extraction_request ev (upload_content f) (upload_content_type f)]
       \<and> response_format (extraction_request ev (upload_content f) (upload_content_type f))
           = str ''json_object''
       \<and> system_content (extraction_request ev (upload_content f) (upload_content_type f))
           = str ''You extract business card details. Respond with JSON only and include the keys: ''
             @ join_str (str '', '') extraction_keys @ str ''.''
       \<and> length extraction_keys = 7
       \<and> (\<forall>resp st'. upload_card ev now card_id (Some f) st = (Inr resp, st') \<longrightarrow>
            (\<exists>extracted capture_time name records.
               fst (extract_card_details ev (upload_content f) (upload_content_type f) st)
                 = Inr extracted
             \<and> fst (load_records st) = Inr records
             \<and> data_file st'
                 = Some (file_text (records @ [new_record ev card_id extracted capture_time name]))
             \<and> (\<forall>k\<in>set extraction_keys.
                   map_of (new_record ev card_id extracted capture_time name) k
                     = Some (case map_of extracted k of None \<Rightarrow> [] | Some v \<Rightarrow> v))))"
proof -
  have a: "chat_calls (snd (upload_card ev now card_id (Some f) st))
           = chat_calls st @ [extraction_request ev (upload_content f) (upload_content_type f)]"
    using assms by (rule upload_card_chat_calls)
  have b: "response_format (extraction_request ev (upload_content f) (upload_content_type f))
           = str ''json_object''"
    by (simp add: extraction_request_def Let_def)
  have c: "system_content (extraction_request ev (upload_content f) (upload_content_type f))
           = str ''You extract business card details. Respond with JSON only and include the keys: ''
             @ join_str (str '', '') extraction_keys @ str ''.''"
    by (simp add: extraction_request_def Let_def system_prompt_def extraction_keys_def)
  have d: "length extraction_keys = 7"
    by (simp add: extraction_keys_def)
  have e: "\<exists>extracted capture_time name records.
               fst (extract_card_details ev (upload_content f) (upload_content_type f) st)
                 = Inr extracted
             \<and> fst (load_records st) = Inr records
             \<and> data_file st'
                 = Some (file_text (records @ [new_record ev card_id extracted capture_time name]))
             \<and> (\<forall>k\<in>set extraction_keys.
                   map_of (new_record ev card_id extracted capture_time name) k
                     = Some (case map_of extracted k of None \<Rightarrow> [] | Some v \<Rightarrow> v))"
    if "upload_card ev now card_id (Some f) st = (Inr resp, st')" for resp st'
    using upload_card_success[OF that] new_record_extracted[of _ ev card_id]
    by (fastforce simp: dict_get_def)
  from a b c d e show ?thesis by blast
qed

text \<open>The theorem at the sample upload into the empty store: the extraction result has
  a first name and a company, and the other five keys are stored as empty strings.\<close>

theorem upload_card_extraction_witness:
  "chat_calls (snd (upload_card sample_env sample_now (str ''id-1'') (Some sample_upload) empty_store))
     = [extraction_request sample_env ''IMG'' None]
   \<and> response_format (extraction_request sample_env ''IMG'' None) = str ''json_object''
   \<and> length extraction_keys = 7"
  using upload_card_extraction[of sample_upload sample_env sample_now "str ''id-1''" empty_store]
  by (simp add: sample_upload_def empty_store_def)

text \<open>
  C4 as stated fails on the number of fields: the system prompt of the request names
  seven keys, not six (the name is asked for as \<open>first_name\<close> and \<open>last_name\<close>), and
  \<open>upload_card\<close> reads the same seven keys from the result.
\<close>

theorem extraction_names_seven_keys:
  "system_prompt
     = str ''You extract business card details. Respond with JSON only and include the keys: ''
       @ join_str (str '', '') extraction_keys @ str ''.''
   \<and> distinct extraction_keys \<and> length extraction_keys = 7 \<and> length extraction_keys \<noteq> 6"
  by (simp add: system_prompt_def extraction_keys_def)

subsection \<open>C5: an unknown id\<close>

text \<open>
  C5 (amended). When the records of the store can be read, each has an id (as every
  record of a file that the program wrote has), and none has the given id, then
  \<open>POST /api/cards/{id}/context\<close> and \<open>GET /api/cards/{id}\<close> both fail with status
  404. \<open>write_records\<close> is not reached: the state after the request is the state that
  \<open>load_records\<close> leaves, that is the state before it whenever the data file exists,
  while a missing data file is created with its header row and no record; and the
  records of the store are the same as before.
\<close>

theorem unknown_id_not_found:
  assumes "load_records st = (Inr records, st1)"
    and "have_ids records"
    and "\<forall>r\<in>set records. map_of r (str ''id'') \<noteq> Some card_id"
  shows "save_context ev card_id payload st = (Inl (HTTPException 404 (str ''Card not found'')), st1)
       \<and> get_card card_id st = (Inl (HTTPException 404 (str ''Card not found'')), st1)
       \<and> st1 = ensure_data_file st
       \<and> (data_file st \<noteq> None \<longrightarrow> st1 = st)
       \<and> load_records st1 = (Inr records, st1)"
proof -
  have fm: "first_match card_id records = length records"
    using assms(3) first_match_absent[of records card_id] by blast
  have st1: "st1 = ensure_data_file st"
    using assms(1) by (rule load_records_result)
  have "update_record card_id (context_changes payload) st
      = (Inl (HTTPException 404 (str ''Card not found'')), st1)"
    using assms(1,2) fm by (rule update_record_absent)
  then have a: "save_context ev card_id payload st
      = (Inl (HTTPException 404 (str ''Card not found'')), st1)"
    by (simp add: save_context_def)
  have b: "get_card card_id st = (Inl (HTTPException 404 (str ''Card not found'')), st1)"
    using assms(1) fm find_card_first_match[OF assms(2), of card_id]
    by (simp add: get_card_def)
  have c: "data_file st \<noteq> None \<longrightarrow> st1 = st"
    using st1 by auto
  have d: "load_records st1 = (Inr records, st1)"
    using assms(1) st1 load_records_ensure[of st] by simp
  from a b c d st1 show ?thesis by simp
qed

theorem unknown_id_not_found_witness:
  "save_context sample_env (str ''id-9'') sample_context sample_store
     = (Inl (HTTPException 404 (str ''Card not found'')), sample_store)
   \<and> get_card (str ''id-9'') sample_store
     = (Inl (HTTPException 404 (str ''Card not found'')), sample_store)
   \<and> load_records sample_store = (Inr [sample_record, other_record], sample_store)"
  using unknown_id_not_found[OF sample_load sample_records_ok(5), of "str ''id-9''" sample_env
      sample_context]
  by (simp add: sample_records_unfold)

text \<open>
  C5 as stated fails in two ways. On a store without a data file the request for an
  unknown id is answered 404 and changes the store: the data file is created. And on
  a store that cannot be read the answer is not 404 but the reader's error: such a store
  is what the program leaves once a note longer than the field size limit of the CSV
  reader has been submitted for a card.
\<close>

theorem unknown_id_changes_store:
  "get_card (str ''id-9'') empty_store
     = (Inl (HTTPException 404 (str ''Card not found'')),
        empty_store\<lparr>data_file := Some (csv_row COLUMNS)\<rparr>)
   \<and> save_context sample_env (str ''id-9'') sample_context empty_store
     = (Inl (HTTPException 404 (str ''Card not found'')),
        empty_store\<lparr>data_file := Some (csv_row COLUMNS)\<rparr>)
   \<and> data_file empty_store = None
   \<and> overlong_store = snd (save_context sample_env (str ''id-1'') long_context sample_store)
   \<and> get_card (str ''id-9'') overlong_store = (Inl CsvError, overlong_store)
   \<and> save_context sample_env (str ''id-9'') sample_context overlong_store
     = (Inl CsvError, overlong_store)"
proof -
  have l: "load_records empty_store
      = (Inr [], empty_store\<lparr>data_file := Some (csv_row COLUMNS)\<rparr>)"
    by (rule load_records_fresh) (simp add: empty_store_def)
  have a: "get_card (str ''id-9'') empty_store
     = (Inl (HTTPException 404 (str ''Card not found'')),
        empty_store\<lparr>data_file := Some (csv_row COLUMNS)\<rparr>)"
    using l by (simp add: get_card_def)
  have b: "save_context sample_env (str ''id-9'') sample_context empty_store
     = (Inl (HTTPException 404 (str ''Card not found'')),
        empty_store\<lparr>data_file := Some (csv_row COLUMNS)\<rparr>)"
    using l by (simp add: save_context_def update_record_def)
  have c: "data_file empty_store = None"
    by (simp add: empty_store_def)
  have d: "get_card (str ''id-9'') overlong_store = (Inl CsvError, overlong_store)"
    using overlong_store_file long_merged_unreadable by (rule get_card_unreadable)
  have e: "save_context sample_env (str ''id-9'') sample_context overlong_store
     = (Inl CsvError, overlong_store)"
    using overlong_store_file long_merged_unreadable by (rule save_context_unreadable)
  from a b c d e show ?thesis
    by (simp only: overlong_store_def simp_thms)
qed

subsection \<open>C6: the summary image field\<close>

text \<open>
  C6. A successful upload appends a record whose three annotation fields and summary
  image field are empty strings (and its response has no summary image URL). When
  \<open>save_context\<close> reaches the image service and the service fails, the request fails
  with the service's error, the annotations have been written, and the summary image
  field of every record in the rewritten store is what it was: an empty field remains
  empty. The image service is reached when the list with the annotations merged in can
  be written; when one of its values has a lone surrogate, the request fails at the
  write with \<open>UnicodeEncodeError\<close>, the file holds the records before the first such
  record, and the summary image field of each of them is what it was as well.
\<close>

theorem summary_image_empty_until_generated:
  "(upload_card ev now card_id sent st = (Inr resp, st') \<longrightarrow>
      (\<exists>records r. fst (load_records st) = Inr records
         \<and> data_file st' = Some (file_text (records @ [r]))
         \<and> map_of r (str ''id'') = Some card_id
         \<and> map_of r (str ''meeting_context'') = Some [] \<and> map_of r (str ''priorities'') = Some []
         \<and> map_of r (str ''personal_notes'') = Some [] \<and> map_of r (str ''summary_image'') = Some []
         \<and> summary_image_url resp = None))
   \<and> (load_records st = (Inr records, st1) \<and> have_ids records \<and> list_all keys_ok records
        \<and> k = first_match card_id records \<and> k < length records
        \<and> env_create_image ev
             (summarize_for_image (dict_update (records ! k) (context_changes payload)) payload)
             (str ''1024x1024'') = Inl e
      \<longrightarrow> (list_all encodable_row (merged card_id (context_changes payload) records) \<longrightarrow>
             (\<exists>st2. save_context ev card_id payload st = (Inl e, st2)
                \<and> data_file st2
                    = Some (file_text (merged card_id (context_changes payload) records))))
        \<and> (\<not> list_all encodable_row (merged card_id (context_changes payload) records) \<longrightarrow>
             (\<exists>st2. save_context ev card_id payload st = (Inl UnicodeEncodeError, st2)
                \<and> data_file st2
                    = Some (file_text (takeWhile encodable_row
                         (merged card_id (context_changes payload) records)))))
        \<and> (\<forall>i<length records.
               map_of (merged card_id (context_changes payload) records ! i) (str ''summary_image'')
                 = map_of (records ! i) (str ''summary_image'')))"
proof (intro conjI impI)
  assume "upload_card ev now card_id sent st = (Inr resp, st')"
  from upload_card_success[OF this] obtain f extracted capture_time name records where
    u: "fst (load_records st) = Inr records"
      "data_file st' = Some (file_text (records @ [new_record ev card_id extracted capture_time name]))"
      "resp = serialize_record (new_record ev card_id extracted capture_time name)"
    by blast
  have "summary_image_url resp = None"
    using u(3) new_record_fields(5)[of ev card_id extracted capture_time name]
    by (simp add: serialize_record_def media_url_def)
  with u(1,2) show "\<exists>records r. fst (load_records st) = Inr records
         \<and> data_file st' = Some (file_text (records @ [r]))
         \<and> map_of r (str ''id'') = Some card_id
         \<and> map_of r (str ''meeting_context'') = Some [] \<and> map_of r (str ''priorities'') = Some []
         \<and> map_of r (str ''personal_notes'') = Some [] \<and> map_of r (str ''summary_image'') = Some []
         \<and> summary_image_url resp = None"
    using new_record_fields[of ev card_id extracted capture_time name] by blast
next
  let ?changes = "context_changes payload"
  let ?M = "merged card_id ?changes records"
  assume h: "load_records st = (Inr records, st1) \<and> have_ids records \<and> list_all keys_ok records
        \<and> k = first_match card_id records \<and> k < length records
        \<and> env_create_image ev
             (summarize_for_image (dict_update (records ! k) (context_changes payload)) payload)
             (str ''1024x1024'') = Inl e"
  assume enc: "list_all encodable_row ?M"
  have u: "update_record card_id ?changes st
      = (Inr (dict_update (records ! k) ?changes), st1\<lparr>data_file := Some (file_text ?M)\<rparr>)"
    using update_record_merged[of st records st1 ?changes card_id] h enc
      context_changes_keys_ok[of payload] by simp
  from h have ce: "env_create_image ev
             (summarize_for_image (dict_update (records ! k) ?changes) payload) IMAGE_SIZE = Inl e"
    by (auto simp: IMAGE_SIZE_def)
  have "save_context ev card_id payload st
      = (Inl e, st1\<lparr>data_file := Some (file_text ?M),
                   image_calls := image_calls st1
                     @ [(summarize_for_image (dict_update (records ! k) ?changes) payload,
                         IMAGE_SIZE)]\<rparr>)"
    unfolding save_context_def using u ce by (simp add: Let_def)
  then show "\<exists>st2. save_context ev card_id payload st = (Inl e, st2)
                \<and> data_file st2 = Some (file_text ?M)"
    by simp
next
  let ?changes = "context_changes payload"
  let ?M = "merged card_id ?changes records"
  assume h: "load_records st = (Inr records, st1) \<and> have_ids records \<and> list_all keys_ok records
        \<and> k = first_match card_id records \<and> k < length records
        \<and> env_create_image ev
             (summarize_for_image (dict_update (records ! k) (context_changes payload)) payload)
             (str ''1024x1024'') = Inl e"
  assume enc: "\<not> list_all encodable_row ?M"
  have "update_record card_id ?changes st
      = (Inl UnicodeEncodeError,
         st1\<lparr>data_file := Some (file_text (takeWhile encodable_row ?M))\<rparr>)"
    using update_record_written[of st records st1 ?changes card_id] h enc
      context_changes_keys_ok[of payload] by simp
  then have "save_context ev card_id payload st
      = (Inl UnicodeEncodeError,
         st1\<lparr>data_file := Some (file_text (takeWhile encodable_row ?M))\<rparr>)"
    by (simp add: save_context_def)
  then show "\<exists>st2. save_context ev card_id payload st = (Inl UnicodeEncodeError, st2)
                \<and> data_file st2 = Some (file_text (takeWhile encodable_row ?M))"
    by simp
next
  let ?changes = "context_changes payload"
  assume h: "load_records st = (Inr records, st1) \<and> have_ids records \<and> list_all keys_ok records
        \<and> k = first_match card_id records \<and> k < length records
        \<and> env_create_image ev
             (summarize_for_image (dict_update (records ! k) (context_changes payload)) payload)
             (str ''1024x1024'') = Inl e"
  have "map_of (merged card_id ?changes records ! i) (str ''summary_image'')
      = map_of (records ! i) (str ''summary_image'')" if "i < length records" for i
  proof (cases "i = k")
    case True
    have "str ''summary_image'' \<notin> fst ` set ?changes"
      by (simp add: context_changes_def)
    then have "map_of (dict_update (records ! k) ?changes) (str ''summary_image'')
        = map_of (records ! k) (str ''summary_image'')"
      by (rule map_of_dict_update_other)
    then show ?thesis
      using True h that by (simp add: merged_def)
  next
    case False
    then show ?thesis using h by (simp add: merged_def)
  qed
  then show "\<forall>i<length records.
               map_of (merged card_id (context_changes payload) records ! i) (str ''summary_image'')
                 = map_of (records ! i) (str ''summary_image'')"
    by simp
qed

text \<open>The theorem at the sample upload into the empty store, and at the sample store
  with an image service that fails.\<close>

theorem summary_image_empty_until_generated_witness:
  "summary_image_url
     (serialize_record
        (new_record sample_env (str ''id-1'') [(str ''first_name'', str ''Ada''), (str ''company'', str ''Engines, Ltd'')]
           (isoformat_utc sample_now) (str ''id-1_source.jpg''))) = None
   \<and> fst (save_context failing_env (str ''id-1'') sample_context sample_store)
       = Inl (ExternalError (str ''quota''))
   \<and> map_of (merged (str ''id-1'') (context_changes sample_context) [sample_record, other_record] ! 0)
        (str ''summary_image'') = Some []"
proof -
  let ?r = "new_record sample_env (str ''id-1'') [(str ''first_name'', str ''Ada''), (str ''company'', str ''Engines, Ltd'')]
           (isoformat_utc sample_now) (str ''id-1_source.jpg'')"
  let ?M = "merged (str ''id-1'') (context_changes sample_context) [sample_record, other_record]"
  have a: "summary_image_url (serialize_record ?r) = None"
    using summary_image_empty_until_generated[where ev = sample_env and now = sample_now
        and card_id = "str ''id-1''" and sent = "Some sample_upload" and st = empty_store
        and resp = "serialize_record ?r"
        and records = "[]" and ?st1.0 = empty_store and k = 0 and payload = sample_context
        and e = ValueError, THEN conjunct1, rule_format, OF sample_upload_result]
    by blast
  have c: "env_create_image failing_env
      (summarize_for_image (dict_update ([sample_record, other_record] ! 0)
          (context_changes sample_context)) sample_context) (str ''1024x1024'')
      = Inl (ExternalError (str ''quota''))"
    by (simp add: failing_env_def)
  have h: "load_records sample_store = (Inr [sample_record, other_record], sample_store)
      \<and> have_ids [sample_record, other_record] \<and> list_all keys_ok [sample_record, other_record]
      \<and> 0 = first_match (str ''id-1'') [sample_record, other_record]
      \<and> 0 < length [sample_record, other_record]
      \<and> env_create_image failing_env
          (summarize_for_image (dict_update ([sample_record, other_record] ! 0)
              (context_changes sample_context)) sample_context) (str ''1024x1024'')
          = Inl (ExternalError (str ''quota''))"
    using c sample_load sample_records_ok(3,4,5) sample_first_match(1) by simp
  have m: "?M = [dict_update sample_record (context_changes sample_context), other_record]"
    using sample_first_match(1) by (simp add: merged_def)
  have "encodable_row (dict_update sample_record (context_changes sample_context))"
    unfolding sample_merged_record
    by (simp add: encodable_row_def stored_values_def COLUMNS_def dict_get_def)
  then have enc: "list_all encodable_row ?M"
    unfolding m using sample_records_ok(7) by simp
  note t = summary_image_empty_until_generated[where ev = failing_env and now = sample_now
        and card_id = "str ''id-1''" and sent = None and st = sample_store
        and resp = "serialize_record []" and st' = sample_store
        and records = "[sample_record, other_record]" and ?st1.0 = sample_store and k = 0
        and payload = sample_context and e = "ExternalError (str ''quota'')",
        THEN conjunct2, rule_format, OF h]
  from t[THEN conjunct1, rule_format, OF enc]
  have b: "fst (save_context failing_env (str ''id-1'') sample_context sample_store)
       = Inl (ExternalError (str ''quota''))"
    by auto
  from t[THEN conjunct2, THEN conjunct2, rule_format, of 0]
  have "map_of (?M ! 0) (str ''summary_image'') = map_of sample_record (str ''summary_image'')"
    by simp
  moreover have "map_of sample_record (str ''summary_image'') = Some []"
    unfolding sample_records_unfold by simp
  ultimately show ?thesis using a b by (simp only: simp_thms)
qed

subsection \<open>C7: an empty upload\<close>




subsection \<open>C8: the image request\<close>



subsection \<open>C9: the frame of an update\<close>

text \<open>
  C9 (amended). When the records of the store can be read, each has an id and only
  stored columns as keys, the change mapping names only stored columns, a record has
  the given id, and no value of the list with the changes merged in has a lone
  surrogate, then \<open>update_record\<close> returns the first record with that id, merged
  with the changes, and rewrites the data file from the list in which that record alone
  is replaced: every other record is the one that was read, and every field of the
  merged record that the changes do not name has the value that was read. When no value
  of the new list is longer than the field size limit, reading the rewritten file gives
  that list back.
\<close>

theorem update_record_frame:
  assumes "load_records st = (Inr records, st1)"
    and "have_ids records"
    and "list_all keys_ok records"
    and "keys_ok changes"
    and "k = first_match card_id records"
    and "k < length records"
    and "list_all encodable_row (merged card_id changes records)"
  shows "update_record card_id changes st
           = (Inr (dict_update (records ! k) changes),
              st1\<lparr>data_file := Some (file_text (merged card_id changes records))\<rparr>)
       \<and> map_of (records ! k) (str ''id'') = Some card_id
       \<and> (\<forall>i<k. map_of (records ! i) (str ''id'') \<noteq> Some card_id)
       \<and> length (merged card_id changes records) = length records
       \<and> merged card_id changes records ! k = dict_update (records ! k) changes
       \<and> (\<forall>i<length records. i \<noteq> k \<longrightarrow> merged card_id changes records ! i = records ! i)
       \<and> (\<forall>f. f \<notin> fst ` set changes
              \<longrightarrow> map_of (dict_update (records ! k) changes) f = map_of (records ! k) f)
       \<and> (list_all values_ok (merged card_id changes records)
            \<longrightarrow> load_records (st1\<lparr>data_file := Some (file_text (merged card_id changes records))\<rparr>)
                = (Inr (map stored_row (merged card_id changes records)),
                   st1\<lparr>data_file := Some (file_text (merged card_id changes records))\<rparr>))"
proof -
  let ?P = "\<lambda>r. map_of r (str ''id'') \<noteq> Some card_id"
  have a: "update_record card_id changes st
           = (Inr (dict_update (records ! k) changes),
              st1\<lparr>data_file := Some (file_text (merged card_id changes records))\<rparr>)"
    using update_record_merged[OF assms(1-4)] assms(5,6,7) by simp
  have b: "map_of (records ! k) (str ''id'') = Some card_id"
    using nth_length_takeWhile[of ?P records] assms(5,6) by (simp add: first_match_def)
  have c: "\<forall>i<k. map_of (records ! i) (str ''id'') \<noteq> Some card_id"
  proof (intro allI impI)
    fix i assume "i < k"
    then have "i < length (takeWhile ?P records)"
      using assms(5) by (simp add: first_match_def)
    then have "takeWhile ?P records ! i \<in> set (takeWhile ?P records)"
      and "takeWhile ?P records ! i = records ! i"
      by (rule nth_mem, rule takeWhile_nth)
    then show "map_of (records ! i) (str ''id'') \<noteq> Some card_id"
      using set_takeWhileD by fastforce
  qed
  have d: "length (merged card_id changes records) = length records"
    by (simp add: merged_def)
  have e: "merged card_id changes records ! k = dict_update (records ! k) changes"
    using assms(5,6) by (simp add: merged_def)
  have f: "\<forall>i<length records. i \<noteq> k \<longrightarrow> merged card_id changes records ! i = records ! i"
    using assms(5) by (simp add: merged_def)
  have g: "\<forall>f. f \<notin> fst ` set changes
              \<longrightarrow> map_of (dict_update (records ! k) changes) f = map_of (records ! k) f"
    by (simp add: map_of_dict_update_other)
  have h: "list_all values_ok (merged card_id changes records)
            \<longrightarrow> load_records (st1\<lparr>data_file := Some (file_text (merged card_id changes records))\<rparr>)
                = (Inr (map stored_row (merged card_id changes records)),
                   st1\<lparr>data_file := Some (file_text (merged card_id changes records))\<rparr>)"
    by (simp add: load_records_file_text)
  from a b c d e f g h show ?thesis by blast
qed

text \<open>The theorem at the sample store: the priorities of the second record are set, and
  the first record and the other fields of the second are as before.\<close>

theorem update_record_frame_witness:
  "fst (update_record (str ''id-2'') [(str ''priorities'', str ''Hiring'')] sample_store)
     = Inr (dict_update other_record [(str ''priorities'', str ''Hiring'')])
   \<and> data_file (snd (update_record (str ''id-2'') [(str ''priorities'', str ''Hiring'')] sample_store))
     = Some (file_text [sample_record, dict_update other_record [(str ''priorities'', str ''Hiring'')]])
   \<and> map_of (dict_update other_record [(str ''priorities'', str ''Hiring'')]) (str ''first_name'') = Some (str ''Bob'')"
proof -
  have "dict_update other_record [(str ''priorities'', str ''Hiring'')] =
     [(str ''id'', str ''id-2''), (str ''first_name'', str ''Bob''), (str ''last_name'', []),
      (str ''company'', []), (str ''company_logo_description'', []), (str ''email'', []),
      (str ''phone'', []), (str ''address'', []), (str ''meeting_context'', []),
      (str ''priorities'', str ''Hiring''),
      (str ''personal_notes'', []), (str ''captured_at'', str ''2024-03-09T08:00:00+00:00''),
      (str ''source_image'', str ''id-2_source.jpg''), (str ''summary_image'', []),
      (str ''raw_ocr_json'', str ''{}'')]"
    by (simp add: sample_records_unfold dict_update_def)
  then have e: "encodable_row (dict_update other_record [(str ''priorities'', str ''Hiring'')])"
    by (simp add: encodable_row_def stored_values_def COLUMNS_def dict_get_def)
  show ?thesis
    using update_record_frame[OF sample_load sample_records_ok(5), of "[(str ''priorities'', str ''Hiring'')]"
        1 "str ''id-2''"] e
    by (simp add: sample_records_ok sample_first_match[simplified] merged_def keys_ok_def COLUMNS_def)
      (simp add: sample_records_unfold dict_update_def)
qed

text \<open>
  C9 as stated fails in two ways, and both lose records. When a value of the change
  mapping has a lone surrogate, the file raises \<open>UnicodeEncodeError\<close> at the merged
  record, after it has been emptied and the header written: here \<open>save_context\<close> passes
  the three annotations of a context whose priorities are the letter \<open>A\<close> followed by
  \<open>U+D83D\<close>, the first record is the one updated, and the second record is lost with it.
  When the change mapping has a key that is not a stored column, \<open>DictWriter\<close> raises
  \<open>ValueError\<close> at the merged record, with the same loss.
\<close>

theorem update_record_loses_records:
  "update_record (str ''id-1'') (context_changes broken_context) sample_store
     = (Inl UnicodeEncodeError, sample_store\<lparr>data_file := Some (csv_row COLUMNS)\<rparr>)
   \<and> save_context sample_env (str ''id-1'') broken_context sample_store
     = (Inl UnicodeEncodeError, sample_store\<lparr>data_file := Some (csv_row COLUMNS)\<rparr>)
   \<and> load_records sample_store = (Inr [sample_record, other_record], sample_store)
   \<and> load_records (sample_store\<lparr>data_file := Some (csv_row COLUMNS)\<rparr>)
     = (Inr [], sample_store\<lparr>data_file := Some (csv_row COLUMNS)\<rparr>)
   \<and> update_record (str ''id-1'') [(str ''nickname'', str ''Countess'')] sample_store
     = (Inl ValueError, sample_store\<lparr>data_file := Some (csv_row COLUMNS)\<rparr>)"
proof -
  have w: "dict_to_list COLUMNS (dict_update sample_record [(str ''nickname'', str ''Countess'')])
      = Inl ValueError"
    by (simp add: sample_records_unfold dict_update_def dict_to_list_def COLUMNS_def)
  have "update_rows (str ''id-1'') [(str ''nickname'', str ''Countess'')] [] [sample_record, other_record]
      = Inr (Some ([dict_update sample_record [(str ''nickname'', str ''Countess'')], other_record],
                   dict_update sample_record [(str ''nickname'', str ''Countess'')]))"
    using update_rows_first_match[OF sample_records_ok(5), of "str ''id-1''" _ "[]"]
    by (simp add: sample_first_match[simplified] merged_def)
  moreover have "ensure_data_file sample_store = sample_store"
    by (simp add: sample_store_def)
  ultimately have f: "update_record (str ''id-1'') [(str ''nickname'', str ''Countess'')] sample_store
     = (Inl ValueError, sample_store\<lparr>data_file := Some (csv_row COLUMNS)\<rparr>)"
    using sample_load w by (simp add: update_record_def write_records_def)
  have s: "save_context sample_env (str ''id-1'') broken_context sample_store
     = (Inl UnicodeEncodeError, sample_store\<lparr>data_file := Some (csv_row COLUMNS)\<rparr>)"
    unfolding save_context_def broken_context_update by simp
  from f s broken_context_update sample_load header_only_store show ?thesis
    by (simp only: simp_thms)
qed

subsection \<open>C10: the capture time is total\<close>

text \<open>
  C10. \<open>extract_capture_datetime\<close> returns for every input, whatever the EXIF reader
  and \<open>strptime\<close> do (raise or return): its result is never an exception. It is the
  ISO format of the clock or of a time that \<open>strptime\<close> returned, and that text has
  the shape \<open>YYYY-MM-DDTHH:MM:SS+00:00\<close>, with six digits of microseconds after the
  seconds when they are not zero.
\<close>

theorem extract_capture_datetime_total:
  "\<exists>d. extract_capture_datetime tags strptime getexif now image_bytes = Inr (isoformat_utc d)
       \<and> is_iso_utc (isoformat_utc d)
       \<and> (d = now \<or> (\<exists>s. strptime s = Some d))"
proof -
  let ?res = "extract_capture_datetime tags strptime getexif now image_bytes"
  have r: "?res = Inr (case getexif image_bytes of
            Inl e \<Rightarrow> isoformat_utc now
          | Inr exif_data \<Rightarrow>
              (case find (usable_tag tags strptime) (ifd0 exif_data) of
                 None \<Rightarrow> isoformat_utc now
               | Some item \<Rightarrow> isoformat_utc (the (parse_exif_time strptime (snd item)))))"
    by (rule extract_capture_datetime_ifd0)
  consider (clock) "?res = Inr (isoformat_utc now)"
    | (tag) exif_data item where "getexif image_bytes = Inr exif_data"
        "find (usable_tag tags strptime) (ifd0 exif_data) = Some item"
        "?res = Inr (isoformat_utc (the (parse_exif_time strptime (snd item))))"
    using r by (auto split: sum.splits option.splits)
  then show ?thesis
  proof cases
    case clock
    then show ?thesis using is_iso_utc_isoformat[of now] by blast
  next
    case tag
    from tag(2) have "usable_tag tags strptime item"
      by (auto simp: find_Some_iff)
    then obtain d where d: "parse_exif_time strptime (snd item) = Some d"
      by (auto simp: usable_tag_def)
    then obtain s where "strptime s = Some d"
      by (auto simp: parse_exif_time_def split: exif_value.splits)
    with tag(3) d show ?thesis using is_iso_utc_isoformat[of d] by auto
  qed
qed

text \<open>The theorem at bytes that are no image: the result is the clock of the sample,
  and it has the shape.\<close>

theorem extract_capture_datetime_total_witness:
  "extract_capture_datetime (\<lambda>n. None) (\<lambda>s. None)
       (\<lambda>b. Inl (ExternalError (str ''cannot identify image file''))) sample_now ''not an image''
     = Inr (str ''2024-03-09T07:05:00+00:00'')
   \<and> is_iso_utc (str ''2024-03-09T07:05:00+00:00'')"
  using extract_capture_datetime_total[of "\<lambda>n. None" "\<lambda>s. None"
      "\<lambda>b. Inl (ExternalError (str ''cannot identify image file''))" sample_now "''not an image''"]
  by (auto simp: sample_isoformat)

end
